theory Spec2Isabelle
  imports
    Complex_Main
    "HOL-Library.AList"
    "HOL-Library.Char_ord"
    "HOL-Library.List_Lexorder"
    "HOL-Library.Product_Lexorder"
begin

section \<open>Data model\<close>

text \<open>
  The matching engine of \<^verbatim>\<open>newmatcher.py\<close> (its three passes are repeated verbatim in
  \<^verbatim>\<open>newmatcher2.py\<close>, which adds the candidate scorer) works on dictionaries loaded from CSV
  and JSON. Each dictionary shape becomes a record with the keys the passes read; the
  account numbers and the free text of a voucher, which no pass reads, are left out. The
  older scripts are not modelled: \<^verbatim>\<open>matcher.py\<close> leaves the date window of Pass B and the
  whole of Pass C to be written, and \<^verbatim>\<open>grokmatcher2.py\<close> calls its passes only to list the
  candidates shown for one voucher and never merges their results.

  \<^item> An amount is a Python float. It is represented by its exact rational value, and
    \<^verbatim>\<open>round(float(x), 2)\<close> by the number of cents nearest to it (ties to the even cent);
    two rounded floats are equal exactly when their cent counts are.
  \<^item> A parsed \<^verbatim>\<open>datetime\<close> is represented by its day number. Every date string of the
    pipeline is date-only (\<^verbatim>\<open>docprocessor.py\<close> writes \<^verbatim>\<open>d.isoformat()\<close> of a date,
    \<^verbatim>\<open>load_bank_records\<close> builds \<^verbatim>\<open>YYYY-MM-DD\<close>), so a parsed value is a midnight,
    \<^verbatim>\<open>(a - b).days\<close> is the difference of the day numbers and \<^verbatim>\<open>timedelta(days=n)\<close> is
    \<open>n\<close>.
  \<^item> \<^verbatim>\<open>datetime.fromisoformat\<close> is library code. The passes take it as the parameter
    \<open>parse\<close>, with \<open>None\<close> for the \<^verbatim>\<open>ValueError\<close> the passes catch, so every result below
    holds for any parser.
  \<^item> A Python \<^verbatim>\<open>dict\<close> that is iterated is an association list in insertion order,
    written with \<^const>\<open>AList.update\<close> (an existing key keeps its place, a new key goes
    last) and read with \<^const>\<open>map_of\<close>; a dict that is only looked up is a map.
\<close>

type_synonym datetime = int

record voucher =
  VoucherNumber :: string
  Date_iso :: string
  Amount :: rat
  CreditorID :: "int option"

text \<open>The key \<^verbatim>\<open>'file'\<close> of a document is the field \<open>filename\<close>.\<close>

record doc =
  filename :: string
  dates :: "string list"
  amounts :: "rat list"
  vendors :: "string list"

record alias_entry =
  prefix :: string
  postfix :: string
  frequency :: "string option"
  start_date :: "string option"

record creditor =
  name :: string
  aliases :: "alias_entry list"

type_synonym matchdict = "(string \<times> string list) list"

definition round2 :: "rat \<Rightarrow> int" where
  "round2 x =
     (let y = x * 100; f = \<lfloor>y\<rfloor>; r = y - of_int f in
      if r < 1 / 2 then f
      else if 1 / 2 < r then f + 1
      else if even f then f else f + 1)"

definition startswith :: "string \<Rightarrow> string \<Rightarrow> bool" where
  "startswith line pref = (take (length pref) line = pref)"

definition endswith :: "string \<Rightarrow> string \<Rightarrow> bool" where
  "endswith line post =
     (length post \<le> length line \<and> drop (length line - length post) line = post)"

text \<open>\<^verbatim>\<open>line.startswith(pref) and (not post or line.endswith(post))\<close>\<close>

definition alias_hit :: "string \<Rightarrow> string \<Rightarrow> string \<Rightarrow> bool" where
  "alias_hit pref post line = (startswith line pref \<and> (post = [] \<or> endswith line post))"

section \<open>Pass A: exact amount\<close>

text \<open>\<^verbatim>\<open>doc_by_amount.setdefault(key, []).append(doc['file'])\<close>\<close>

definition setdefault_append ::
  "(int \<rightharpoonup> string list) \<Rightarrow> int \<Rightarrow> string \<Rightarrow> (int \<rightharpoonup> string list)" where
  "setdefault_append m key f = m(key \<mapsto> (case m key of None \<Rightarrow> [] | Some l \<Rightarrow> l) @ [f])"

definition index_doc :: "(int \<rightharpoonup> string list) \<Rightarrow> doc \<Rightarrow> (int \<rightharpoonup> string list)" where
  "index_doc m d = foldl (\<lambda>m amt. setdefault_append m (round2 amt) (filename d)) m (amounts d)"

definition build_doc_by_amount :: "doc list \<Rightarrow> (int \<rightharpoonup> string list)" where
  "build_doc_by_amount doc_records = foldl index_doc Map.empty doc_records"

text \<open>\<^verbatim>\<open>doc_by_amount.get(amt_key, [])\<close>\<close>

definition get_list :: "('k \<rightharpoonup> 'v list) \<Rightarrow> 'k \<Rightarrow> 'v list" where
  "get_list m k = (case m k of None \<Rightarrow> [] | Some l \<Rightarrow> l)"

text \<open>
  One iteration of the voucher loop of \<^verbatim>\<open>pass_a_exact_amount\<close>. The parameter
  \<open>unmatched_docs\<close> of the source is never read by the function body; it is kept in the
  signature as in the source.
\<close>

definition pass_a_step ::
  "(int \<rightharpoonup> string list) \<Rightarrow> string list \<Rightarrow> matchdict \<Rightarrow> voucher \<Rightarrow> matchdict" where
  "pass_a_step doc_by_amount unmatched_vouchers matches v =
     (let vn = VoucherNumber v in
      if vn \<notin> set unmatched_vouchers then matches
      else
        let amt_key = round2 (Amount v);
            candidates = get_list doc_by_amount amt_key
        in if length candidates = 1 then AList.update vn candidates matches else matches)"

definition pass_a_exact_amount ::
  "voucher list \<Rightarrow> doc list \<Rightarrow> string list \<Rightarrow> string list \<Rightarrow> matchdict" where
  "pass_a_exact_amount bank_records doc_records unmatched_vouchers unmatched_docs =
     foldl (pass_a_step (build_doc_by_amount doc_records) unmatched_vouchers) [] bank_records"

section \<open>Closest date\<close>

text \<open>
  \<^verbatim>\<open>min(doc_dates, key=lambda dd: abs((dd - v_date).days))\<close> on a non-empty list: Python's
  \<^verbatim>\<open>min\<close> walks the list once and replaces the current best only by an element whose key
  is strictly smaller. The source calls it under \<^verbatim>\<open>if doc_dates:\<close> only, so the list is
  given as its head and its tail.
\<close>

fun min_by :: "('a \<Rightarrow> int) \<Rightarrow> 'a \<Rightarrow> 'a list \<Rightarrow> 'a" where
  "min_by key best [] = best"
| "min_by key best (x # xs) = min_by key (if key x < key best then x else best) xs"

definition day_distance :: "datetime \<Rightarrow> datetime \<Rightarrow> int" where
  "day_distance a b = \<bar>a - b\<bar>"

definition closest :: "datetime \<Rightarrow> datetime \<Rightarrow> datetime list \<Rightarrow> datetime" where
  "closest v_date d ds = min_by (\<lambda>dd. day_distance dd v_date) d ds"

text \<open>
  The loop that parses the date strings of a document; a string that does not parse is
  dropped (\<^verbatim>\<open>except Exception: pass\<close>).
\<close>

definition parse_dates :: "(string \<Rightarrow> datetime option) \<Rightarrow> string list \<Rightarrow> datetime list" where
  "parse_dates parse ds = List.map_filter parse ds"

section \<open>Pass B: alias and date window\<close>

text \<open>The two nested loops with \<^verbatim>\<open>break\<close> of Pass B: vendor lines outside, aliases inside.\<close>

fun line_matches_alias_list :: "(string \<times> string) list \<Rightarrow> string \<Rightarrow> bool" where
  "line_matches_alias_list [] line = False"
| "line_matches_alias_list ((pref, post) # alias_list) line =
     (if alias_hit pref post line then True else line_matches_alias_list alias_list line)"

fun vendor_lines_match :: "(string \<times> string) list \<Rightarrow> string list \<Rightarrow> bool" where
  "vendor_lines_match alias_list [] = False"
| "vendor_lines_match alias_list (line # vendor_lines) =
     (if line_matches_alias_list alias_list line then True
      else vendor_lines_match alias_list vendor_lines)"

definition date_window_ok :: "datetime \<Rightarrow> datetime list \<Rightarrow> bool" where
  "date_window_ok v_date doc_dates =
     (case doc_dates of
        [] \<Rightarrow> True
      | d # ds \<Rightarrow> day_distance (closest v_date d ds) v_date \<le> 15)"

definition pass_b_candidate ::
  "(string \<Rightarrow> datetime option) \<Rightarrow> string list \<Rightarrow> (string \<times> string) list \<Rightarrow> datetime \<Rightarrow> doc \<Rightarrow> bool"
  where
  "pass_b_candidate parse unmatched_docs alias_list v_date d =
     (filename d \<in> set unmatched_docs \<and>
      vendor_lines_match alias_list (vendors d) \<and>
      date_window_ok v_date (parse_dates parse (dates d)))"

definition pass_b_candidates ::
  "(string \<Rightarrow> datetime option) \<Rightarrow> doc list \<Rightarrow> string list \<Rightarrow> (string \<times> string) list \<Rightarrow>
   datetime \<Rightarrow> string list" where
  "pass_b_candidates parse doc_records unmatched_docs alias_list v_date =
     map filename (filter (pass_b_candidate parse unmatched_docs alias_list v_date) doc_records)"

text \<open>\<^verbatim>\<open>cred_id = v.get('CreditorID'); if cred_id not in creditors: continue\<close>\<close>

definition lookup_creditor :: "(int \<rightharpoonup> creditor) \<Rightarrow> voucher \<Rightarrow> creditor option" where
  "lookup_creditor creditors v =
     (case CreditorID v of None \<Rightarrow> None | Some cred_id \<Rightarrow> creditors cred_id)"

definition alias_pairs :: "creditor \<Rightarrow> (string \<times> string) list" where
  "alias_pairs cred = map (\<lambda>a. (prefix a, postfix a)) (aliases cred)"

definition pass_b_step ::
  "(string \<Rightarrow> datetime option) \<Rightarrow> doc list \<Rightarrow> string list \<Rightarrow> string list \<Rightarrow>
   (int \<rightharpoonup> creditor) \<Rightarrow> matchdict \<Rightarrow> voucher \<Rightarrow> matchdict" where
  "pass_b_step parse doc_records unmatched_vouchers unmatched_docs creditors new_matches v =
     (let vn = VoucherNumber v in
      if vn \<notin> set unmatched_vouchers then new_matches
      else case lookup_creditor creditors v of
        None \<Rightarrow> new_matches
      | Some cred \<Rightarrow>
          (case parse (Date_iso v) of
             None \<Rightarrow> new_matches
           | Some v_date \<Rightarrow>
               let candidates =
                 pass_b_candidates parse doc_records unmatched_docs (alias_pairs cred) v_date
               in if length candidates = 1 then AList.update vn candidates new_matches
                  else new_matches))"

definition pass_b_alias_date ::
  "(string \<Rightarrow> datetime option) \<Rightarrow> voucher list \<Rightarrow> doc list \<Rightarrow> string list \<Rightarrow> string list \<Rightarrow>
   (int \<rightharpoonup> creditor) \<Rightarrow> matchdict" where
  "pass_b_alias_date parse bank_records doc_records unmatched_vouchers unmatched_docs creditors =
     foldl (pass_b_step parse doc_records unmatched_vouchers unmatched_docs creditors)
       [] bank_records"

section \<open>Pass C: subscription schedule\<close>

text \<open>\<^verbatim>\<open>frequency_deltas.get(freq, timedelta(days=30))\<close>, in days.\<close>

definition frequency_delta :: "string \<Rightarrow> int" where
  "frequency_delta freq =
     (if freq = ''monthly'' then 30
      else if freq = ''quarterly'' then 90
      else if freq = ''semi-annual'' then 180
      else if freq = ''bimonthly'' then 60
      else 30)"

text \<open>
  The \<^verbatim>\<open>while current <= (v_date + delta)\<close> loop. The step is always looked up in the
  frequency table, so the loop takes the frequency and not an arbitrary step.
\<close>

function schedule_loop ::
  "string \<Rightarrow> datetime \<Rightarrow> datetime \<Rightarrow> datetime \<Rightarrow> datetime list \<Rightarrow> datetime list" where
  "schedule_loop freq start v_date current expected_dates =
     (if current \<le> v_date + frequency_delta freq
      then schedule_loop freq start v_date (current + frequency_delta freq)
             (if start \<le> current then expected_dates @ [current] else expected_dates)
      else expected_dates)"
  by pat_completeness auto
termination
proof (relation "measure (\<lambda>(freq, start, v_date, current, expected_dates).
                   nat (v_date + frequency_delta freq + 1 - current))")
  show "wf (measure (\<lambda>(freq, start, v_date, current, expected_dates).
                   nat (v_date + frequency_delta freq + 1 - current)))"
    by simp
next
  fix freq :: string and start v_date current :: datetime and expected_dates :: "datetime list"
  assume "current \<le> v_date + frequency_delta freq"
  moreover have "0 < frequency_delta freq"
    by (simp add: frequency_delta_def)
  ultimately show "((freq, start, v_date, current + frequency_delta freq,
          if start \<le> current then expected_dates @ [current] else expected_dates),
         (freq, start, v_date, current, expected_dates))
        \<in> measure (\<lambda>(freq, start, v_date, current, expected_dates).
                   nat (v_date + frequency_delta freq + 1 - current))"
    by simp
qed

declare schedule_loop.simps [simp del]

definition expected_schedule :: "string \<Rightarrow> datetime \<Rightarrow> datetime \<Rightarrow> datetime list" where
  "expected_schedule freq start v_date = schedule_loop freq start v_date start []"

text \<open>\<^verbatim>\<open>if freq and start\<close>: the key is present and the string is not empty.\<close>

definition truthy :: "string option \<Rightarrow> bool" where
  "truthy s = (case s of None \<Rightarrow> False | Some t \<Rightarrow> t \<noteq> [])"

definition subscription_aliases :: "creditor \<Rightarrow> alias_entry list" where
  "subscription_aliases cred =
     filter (\<lambda>a. truthy (frequency a) \<and> truthy (start_date a)) (aliases cred)"

text \<open>The two nested loops with \<^verbatim>\<open>break\<close> of Pass C and of the scorer: aliases outside,
  vendor lines inside.\<close>

fun alias_matches_lines :: "alias_entry \<Rightarrow> string list \<Rightarrow> bool" where
  "alias_matches_lines a [] = False"
| "alias_matches_lines a (line # vendor_lines) =
     (if alias_hit (prefix a) (postfix a) line then True
      else alias_matches_lines a vendor_lines)"

fun aliases_match :: "alias_entry list \<Rightarrow> string list \<Rightarrow> bool" where
  "aliases_match [] vendor_lines = False"
| "aliases_match (a # as) vendor_lines =
     (if alias_matches_lines a vendor_lines then True else aliases_match as vendor_lines)"

text \<open>
  The body of \<^verbatim>\<open>for a in subscription_aliases\<close> inside the document loop: what one alias
  appends to \<^verbatim>\<open>candidates\<close> for one document.
\<close>

definition pass_c_alias_appends ::
  "(string \<Rightarrow> datetime option) \<Rightarrow> datetime \<Rightarrow> datetime list \<Rightarrow> string \<Rightarrow> alias_entry \<Rightarrow> string list"
  where
  "pass_c_alias_appends parse v_date doc_dates fname a =
     (if \<not> truthy (frequency a) \<or> \<not> truthy (start_date a) then []
      else case parse (the (start_date a)) of
        None \<Rightarrow> []
      | Some start \<Rightarrow>
          let expected_dates = expected_schedule (the (frequency a)) start v_date in
          (case doc_dates of
             [] \<Rightarrow> [fname]
           | d # ds \<Rightarrow>
               let closest_doc_date = closest v_date d ds in
               if list_ex (\<lambda>exp. day_distance closest_doc_date exp \<le> 7) expected_dates
               then [fname] else []))"

definition pass_c_doc_appends ::
  "(string \<Rightarrow> datetime option) \<Rightarrow> string list \<Rightarrow> alias_entry list \<Rightarrow> datetime \<Rightarrow> rat \<Rightarrow> doc \<Rightarrow>
   string list" where
  "pass_c_doc_appends parse unmatched_docs subs v_date v_amount d =
     (if filename d \<notin> set unmatched_docs then []
      else if round2 v_amount \<notin> set (map round2 (amounts d)) then []
      else if \<not> aliases_match subs (vendors d) then []
      else concat (map (pass_c_alias_appends parse v_date (parse_dates parse (dates d))
                          (filename d)) subs))"

definition pass_c_candidates ::
  "(string \<Rightarrow> datetime option) \<Rightarrow> doc list \<Rightarrow> string list \<Rightarrow> alias_entry list \<Rightarrow> datetime \<Rightarrow>
   rat \<Rightarrow> string list" where
  "pass_c_candidates parse doc_records unmatched_docs subs v_date v_amount =
     concat (map (pass_c_doc_appends parse unmatched_docs subs v_date v_amount) doc_records)"

definition pass_c_step ::
  "(string \<Rightarrow> datetime option) \<Rightarrow> doc list \<Rightarrow> string list \<Rightarrow> string list \<Rightarrow>
   (int \<rightharpoonup> creditor) \<Rightarrow> matchdict \<Rightarrow> voucher \<Rightarrow> matchdict" where
  "pass_c_step parse doc_records unmatched_vouchers unmatched_docs creditors new_matches v =
     (let vn = VoucherNumber v in
      if vn \<notin> set unmatched_vouchers then new_matches
      else case lookup_creditor creditors v of
        None \<Rightarrow> new_matches
      | Some cred \<Rightarrow>
          let subs = subscription_aliases cred in
          if subs = [] then new_matches
          else (case parse (Date_iso v) of
             None \<Rightarrow> new_matches
           | Some v_date \<Rightarrow>
               let candidates =
                     pass_c_candidates parse doc_records unmatched_docs subs v_date (Amount v);
                   unique_candidates = sort (remdups candidates)
               in if length unique_candidates = 1
                  then AList.update vn [unique_candidates ! 0] new_matches
                  else new_matches))"

definition pass_c_subscription ::
  "(string \<Rightarrow> datetime option) \<Rightarrow> voucher list \<Rightarrow> doc list \<Rightarrow> string list \<Rightarrow> string list \<Rightarrow>
   (int \<rightharpoonup> creditor) \<Rightarrow> matchdict" where
  "pass_c_subscription parse bank_records doc_records unmatched_vouchers unmatched_docs creditors =
     foldl (pass_c_step parse doc_records unmatched_vouchers unmatched_docs creditors)
       [] bank_records"

section \<open>The cascade at startup\<close>

text \<open>
  The part of the application object that \<^verbatim>\<open>GrokMatcher.startup\<close> computes with:
  \<^verbatim>\<open>self.matchinfo['matches']\<close>, \<^verbatim>\<open>self.unmatched_vouchers\<close> and
  \<^verbatim>\<open>self.unmatched_docs\<close>.
\<close>

record app =
  matchinfo :: matchdict
  self_unmatched_vouchers :: "string list"
  self_unmatched_docs :: "string list"

definition matched_docs_of :: "matchdict \<Rightarrow> string list" where
  "matched_docs_of m = concat (map snd m)"

definition load_state :: "voucher list \<Rightarrow> doc list \<Rightarrow> matchdict \<Rightarrow> app" where
  "load_state bank_records doc_records m =
     \<lparr> matchinfo = m,
       self_unmatched_vouchers =
         sort (remdups (filter (\<lambda>vn. vn \<notin> set (map fst m)) (map VoucherNumber bank_records))),
       self_unmatched_docs =
         sort (remdups (filter (\<lambda>fn. fn \<notin> set (matched_docs_of m)) (map filename doc_records))) \<rparr>"

text \<open>
  The body of \<^verbatim>\<open>for vn, doc_list in new_a.items()\<close> (the same for \<^verbatim>\<open>new_b\<close> and
  \<^verbatim>\<open>new_c\<close>); \<^verbatim>\<open>if x in l: l.remove(x)\<close> is \<^const>\<open>remove1\<close>.
\<close>

definition commit_match :: "app \<Rightarrow> string \<times> string list \<Rightarrow> app" where
  "commit_match self e =
     (case e of (vn, doc_list) \<Rightarrow>
        if vn \<in> set (map fst (matchinfo self)) then self
        else self\<lparr> matchinfo := AList.update vn doc_list (matchinfo self),
                   self_unmatched_vouchers := remove1 vn (self_unmatched_vouchers self),
                   self_unmatched_docs :=
                     foldl (\<lambda>u dd. remove1 dd u) (self_unmatched_docs self) doc_list \<rparr>)"

text \<open>The guard \<^verbatim>\<open>if new_a:\<close> around the loop only skips a loop over nothing.\<close>

definition merge_pass :: "app \<Rightarrow> matchdict \<Rightarrow> app" where
  "merge_pass self new_matches = foldl commit_match self new_matches"

definition new_a_of :: "voucher list \<Rightarrow> doc list \<Rightarrow> app \<Rightarrow> matchdict" where
  "new_a_of bank_records doc_records self =
     pass_a_exact_amount bank_records doc_records
       (self_unmatched_vouchers self) (self_unmatched_docs self)"

definition new_b_of ::
  "(string \<Rightarrow> datetime option) \<Rightarrow> voucher list \<Rightarrow> doc list \<Rightarrow> (int \<rightharpoonup> creditor) \<Rightarrow> app \<Rightarrow> matchdict"
  where
  "new_b_of parse bank_records doc_records creditors self =
     pass_b_alias_date parse bank_records doc_records
       (self_unmatched_vouchers self) (self_unmatched_docs self) creditors"

definition new_c_of ::
  "(string \<Rightarrow> datetime option) \<Rightarrow> voucher list \<Rightarrow> doc list \<Rightarrow> (int \<rightharpoonup> creditor) \<Rightarrow> app \<Rightarrow> matchdict"
  where
  "new_c_of parse bank_records doc_records creditors self =
     pass_c_subscription parse bank_records doc_records
       (self_unmatched_vouchers self) (self_unmatched_docs self) creditors"

definition after_pass_a :: "voucher list \<Rightarrow> doc list \<Rightarrow> matchdict \<Rightarrow> app" where
  "after_pass_a bank_records doc_records m =
     (let self = load_state bank_records doc_records m
      in merge_pass self (new_a_of bank_records doc_records self))"

definition after_pass_b ::
  "(string \<Rightarrow> datetime option) \<Rightarrow> voucher list \<Rightarrow> doc list \<Rightarrow> (int \<rightharpoonup> creditor) \<Rightarrow> matchdict \<Rightarrow> app"
  where
  "after_pass_b parse bank_records doc_records creditors m =
     (let self = after_pass_a bank_records doc_records m
      in merge_pass self (new_b_of parse bank_records doc_records creditors self))"

definition startup ::
  "(string \<Rightarrow> datetime option) \<Rightarrow> voucher list \<Rightarrow> doc list \<Rightarrow> (int \<rightharpoonup> creditor) \<Rightarrow> matchdict \<Rightarrow> app"
  where
  "startup parse bank_records doc_records creditors m =
     (let self = after_pass_b parse bank_records doc_records creditors m
      in merge_pass self (new_c_of parse bank_records doc_records creditors self))"

section \<open>Candidate scorer\<close>

text \<open>
  \<^verbatim>\<open>GrokMatcher.refresh_table\<close> of \<^verbatim>\<open>newmatcher2.py\<close>. The application object is extended
  with what the method reads and with \<^verbatim>\<open>self.table.data\<close>. A row keeps the file and the
  score; the score is stored as \<^verbatim>\<open>str(score)\<close> and read back with \<^verbatim>\<open>int\<close> for sorting, which
  is the identity on integers. The three display strings of a row are left out.
\<close>

record row =
  r_file :: string
  r_score :: int

record gui = app +
  current_index :: nat
  voucher_map :: "string \<rightharpoonup> voucher"
  doc_records_of :: "doc list"
  creditors_of :: "int \<rightharpoonup> creditor"
  switch_all_docs :: bool
  switch_hide_matched :: bool
  table_data :: "row list"

definition amount_points :: "rat \<Rightarrow> doc \<Rightarrow> int" where
  "amount_points v_amount d =
     (if round2 v_amount \<in> set (map round2 (amounts d)) then 50 else 0)"

text \<open>The inner loop assigns \<^verbatim>\<open>alias_bonus = 30\<close> and breaks; the outer loop breaks as soon
  as \<^verbatim>\<open>alias_bonus\<close> is set.\<close>

fun alias_bonus_lines :: "alias_entry \<Rightarrow> string list \<Rightarrow> int \<Rightarrow> int" where
  "alias_bonus_lines a [] alias_bonus = alias_bonus"
| "alias_bonus_lines a (line # vendor_lines) alias_bonus =
     (if alias_hit (prefix a) (postfix a) line then 30
      else alias_bonus_lines a vendor_lines alias_bonus)"

fun alias_bonus_loop :: "alias_entry list \<Rightarrow> string list \<Rightarrow> int \<Rightarrow> int" where
  "alias_bonus_loop [] vendor_lines alias_bonus = alias_bonus"
| "alias_bonus_loop (a # as) vendor_lines alias_bonus =
     (let alias_bonus' = alias_bonus_lines a vendor_lines alias_bonus
      in if alias_bonus' \<noteq> 0 then alias_bonus'
         else alias_bonus_loop as vendor_lines alias_bonus')"

definition alias_points :: "(int \<rightharpoonup> creditor) \<Rightarrow> voucher \<Rightarrow> doc \<Rightarrow> int" where
  "alias_points creditors v d =
     (case lookup_creditor creditors v of
        None \<Rightarrow> 0
      | Some cred \<Rightarrow> alias_bonus_loop (aliases cred) (vendors d) 0)"

definition date_points :: "datetime \<Rightarrow> datetime list \<Rightarrow> int" where
  "date_points v_date doc_dates =
     (case doc_dates of
        [] \<Rightarrow> 0
      | d # ds \<Rightarrow>
          let diff_days = day_distance (closest v_date d ds) v_date in
          if diff_days \<le> 7 then 20
          else if diff_days \<le> 15 then 10
          else if diff_days \<le> 30 then 5
          else 0)"

definition doc_score ::
  "(string \<Rightarrow> datetime option) \<Rightarrow> (int \<rightharpoonup> creditor) \<Rightarrow> voucher \<Rightarrow> datetime \<Rightarrow> doc \<Rightarrow> int" where
  "doc_score parse creditors v v_date d =
     amount_points (Amount v) d + alias_points creditors v d
       + date_points v_date (parse_dates parse (dates d))"

text \<open>The document loop: the two \<^verbatim>\<open>continue\<close> statements are the filter.\<close>

definition shown ::
  "(string \<Rightarrow> datetime option) \<Rightarrow> gui \<Rightarrow> voucher \<Rightarrow> datetime \<Rightarrow> doc \<Rightarrow> bool" where
  "shown parse self v v_date d =
     (\<not> (switch_hide_matched self \<and> filename d \<in> set (matched_docs_of (matchinfo self))) \<and>
      \<not> (\<not> switch_all_docs self \<and> doc_score parse (creditors_of self) v v_date d = 0))"

definition score_rows ::
  "(string \<Rightarrow> datetime option) \<Rightarrow> gui \<Rightarrow> voucher \<Rightarrow> datetime \<Rightarrow> row list" where
  "score_rows parse self v v_date =
     map (\<lambda>d. \<lparr> r_file = filename d, r_score = doc_score parse (creditors_of self) v v_date d \<rparr>)
       (filter (shown parse self v v_date) (doc_records_of self))"

text \<open>\<^verbatim>\<open>rows.sort(key=lambda r: (-int(r['score']), r['file']))\<close>; both sorts are stable.\<close>

definition sort_rows :: "row list \<Rightarrow> row list" where
  "sort_rows rows = sort_key (\<lambda>r. (- r_score r, r_file r)) rows"

text \<open>
  An exception inside the \<^verbatim>\<open>try\<close> block (an index out of range, a voucher number missing
  from \<^verbatim>\<open>voucher_map\<close>, a voucher date that does not parse) is caught and logged, and the
  table keeps its rows.
\<close>

definition refresh_table :: "(string \<Rightarrow> datetime option) \<Rightarrow> gui \<Rightarrow> gui" where
  "refresh_table parse self =
     (if self_unmatched_vouchers self = [] then self\<lparr> table_data := [] \<rparr>
      else if length (self_unmatched_vouchers self) \<le> current_index self then self
      else case voucher_map self (self_unmatched_vouchers self ! current_index self) of
        None \<Rightarrow> self
      | Some v \<Rightarrow>
          (case parse (Date_iso v) of
             None \<Rightarrow> self
           | Some v_date \<Rightarrow> self\<lparr> table_data := sort_rows (score_rows parse self v v_date) \<rparr>))"

section \<open>A parser for the examples\<close>

text \<open>
  The date-only form \<^verbatim>\<open>YYYY-MM-DD\<close> that the pipeline writes, read to the proleptic
  Gregorian day number (\<^verbatim>\<open>date.toordinal()\<close>). It instantiates the parameter \<open>parse\<close> in
  the concrete examples; no general result depends on it.
\<close>

definition digit_of :: "char \<Rightarrow> int option" where
  "digit_of c =
     (let n = (of_char c :: int) in if 48 \<le> n \<and> n \<le> 57 then Some (n - 48) else None)"

fun number_of :: "int \<Rightarrow> string \<Rightarrow> int option" where
  "number_of acc [] = Some acc"
| "number_of acc (c # cs) =
     (case digit_of c of None \<Rightarrow> None | Some k \<Rightarrow> number_of (10 * acc + k) cs)"

definition is_leap :: "int \<Rightarrow> bool" where
  "is_leap y = (y mod 4 = 0 \<and> (y mod 100 \<noteq> 0 \<or> y mod 400 = 0))"

definition days_in_month :: "int \<Rightarrow> int \<Rightarrow> int" where
  "days_in_month y m =
     (if m = 2 then (if is_leap y then 29 else 28)
      else if m = 4 \<or> m = 6 \<or> m = 9 \<or> m = 11 then 30 else 31)"

definition days_before_year :: "int \<Rightarrow> int" where
  "days_before_year y = (y - 1) * 365 + (y - 1) div 4 - (y - 1) div 100 + (y - 1) div 400"

definition days_before_month :: "int \<Rightarrow> int \<Rightarrow> int" where
  "days_before_month y m = sum_list (map (days_in_month y) [1..m - 1])"

definition iso_ymd :: "string \<Rightarrow> datetime option" where
  "iso_ymd s =
     (case s of
        [y1, y2, y3, y4, h1, m1, m2, h2, d1, d2] \<Rightarrow>
          if h1 = CHR ''-'' \<and> h2 = CHR ''-'' then
            (case (number_of 0 [y1, y2, y3, y4], number_of 0 [m1, m2], number_of 0 [d1, d2]) of
               (Some y, Some m, Some d) \<Rightarrow>
                 if 1 \<le> y \<and> 1 \<le> m \<and> m \<le> 12 \<and> 1 \<le> d \<and> d \<le> days_in_month y m
                 then Some (days_before_year y + days_before_month y m + d)
                 else None
             | _ \<Rightarrow> None)
          else None
      | _ \<Rightarrow> None)"

section \<open>What one voucher writes\<close>

text \<open>
  Each pass is a loop over the vouchers that writes at most one dictionary entry per
  iteration, under the voucher's number. The entry an iteration writes, if any, is named
  here for each pass; the results below relate it to the loop bodies above.
\<close>

definition pass_a_emit ::
  "(int \<rightharpoonup> string list) \<Rightarrow> string list \<Rightarrow> voucher \<Rightarrow> string list option" where
  "pass_a_emit doc_by_amount unmatched_vouchers v =
     (if VoucherNumber v \<in> set unmatched_vouchers \<and>
         length (get_list doc_by_amount (round2 (Amount v))) = 1
      then Some (get_list doc_by_amount (round2 (Amount v))) else None)"

definition pass_b_emit ::
  "(string \<Rightarrow> datetime option) \<Rightarrow> doc list \<Rightarrow> string list \<Rightarrow> string list \<Rightarrow>
   (int \<rightharpoonup> creditor) \<Rightarrow> voucher \<Rightarrow> string list option" where
  "pass_b_emit parse doc_records unmatched_vouchers unmatched_docs creditors v =
     (if VoucherNumber v \<notin> set unmatched_vouchers then None
      else case lookup_creditor creditors v of
        None \<Rightarrow> None
      | Some cred \<Rightarrow>
          (case parse (Date_iso v) of
             None \<Rightarrow> None
           | Some v_date \<Rightarrow>
               let candidates =
                 pass_b_candidates parse doc_records unmatched_docs (alias_pairs cred) v_date
               in if length candidates = 1 then Some candidates else None))"

definition pass_c_emit ::
  "(string \<Rightarrow> datetime option) \<Rightarrow> doc list \<Rightarrow> string list \<Rightarrow> string list \<Rightarrow>
   (int \<rightharpoonup> creditor) \<Rightarrow> voucher \<Rightarrow> string list option" where
  "pass_c_emit parse doc_records unmatched_vouchers unmatched_docs creditors v =
     (if VoucherNumber v \<notin> set unmatched_vouchers then None
      else case lookup_creditor creditors v of
        None \<Rightarrow> None
      | Some cred \<Rightarrow>
          if subscription_aliases cred = [] then None
          else (case parse (Date_iso v) of
             None \<Rightarrow> None
           | Some v_date \<Rightarrow>
               let unique_candidates =
                 sort (remdups (pass_c_candidates parse doc_records unmatched_docs
                                  (subscription_aliases cred) v_date (Amount v)))
               in if length unique_candidates = 1 then Some [unique_candidates ! 0] else None))"

section \<open>The rules in the words of the specification\<close>

text \<open>
  A vendor line matches an alias iff it starts with the prefix and the postfix is empty or
  the line ends with it; a document matches an alias list iff some vendor line matches
  some alias of the list.
\<close>

definition spec_alias_match :: "alias_entry list \<Rightarrow> doc \<Rightarrow> bool" where
  "spec_alias_match als d =
     (\<exists>line\<in>set (vendors d). \<exists>a\<in>set als.
        startswith line (prefix a) \<and> (postfix a = [] \<or> endswith line (postfix a)))"

text \<open>The list has a date, and a date of the list closest to the reference is at most
  \<open>n\<close> days away from \<open>target\<close>.\<close>

definition spec_closest_within :: "int \<Rightarrow> datetime \<Rightarrow> datetime \<Rightarrow> datetime list \<Rightarrow> bool" where
  "spec_closest_within n reference target ds =
     (\<exists>e\<in>set ds. (\<forall>e'\<in>set ds. day_distance e reference \<le> day_distance e' reference) \<and>
        day_distance e target \<le> n)"

text \<open>Pass B: the document is still unmatched, is aliased, and either its closest date is
  at most 15 days from the voucher date or it has no date at all.\<close>

definition spec_pass_b_candidate ::
  "(string \<Rightarrow> datetime option) \<Rightarrow> string list \<Rightarrow> creditor \<Rightarrow> datetime \<Rightarrow> doc \<Rightarrow> bool" where
  "spec_pass_b_candidate parse unmatched_docs cred v_date d =
     (filename d \<in> set unmatched_docs \<and>
      spec_alias_match (aliases cred) d \<and>
      (spec_closest_within 15 v_date v_date (parse_dates parse (dates d)) \<or>
       parse_dates parse (dates d) = []))"

text \<open>
  Pass C, as the code has it. A subscription alias accepts a document when its start date
  parses and either the document has no date, or the document's closest date to the voucher
  date (the one \<^const>\<open>closest\<close> selects) is at most 7 days from some occurrence of the
  alias's schedule. A document is a candidate when it is still unmatched, its amounts
  contain the voucher's amount at cent precision, some vendor line matches some
  subscription alias, and some subscription alias accepts it.
\<close>

definition spec_pass_c_alias_ok ::
  "(string \<Rightarrow> datetime option) \<Rightarrow> datetime \<Rightarrow> datetime list \<Rightarrow> alias_entry \<Rightarrow> bool" where
  "spec_pass_c_alias_ok parse v_date doc_dates a =
     (case parse (the (start_date a)) of
        None \<Rightarrow> False
      | Some start \<Rightarrow>
          (case doc_dates of
             [] \<Rightarrow> True
           | d # ds \<Rightarrow>
               \<exists>exp\<in>set (expected_schedule (the (frequency a)) start v_date).
                 day_distance (closest v_date d ds) exp \<le> 7))"

definition spec_pass_c_candidate ::
  "(string \<Rightarrow> datetime option) \<Rightarrow> string list \<Rightarrow> alias_entry list \<Rightarrow> datetime \<Rightarrow> rat \<Rightarrow>
   doc \<Rightarrow> bool" where
  "spec_pass_c_candidate parse unmatched_docs subs v_date v_amount d =
     (filename d \<in> set unmatched_docs \<and>
      round2 v_amount \<in> round2 ` set (amounts d) \<and>
      spec_alias_match subs d \<and>
      (\<exists>a\<in>set subs. spec_pass_c_alias_ok parse v_date (parse_dates parse (dates d)) a))"

text \<open>
  The scorer: +50 if the amounts of the document contain the voucher's amount at cent
  precision; +30 if some vendor line matches some alias of the voucher's creditor; +20 if
  the closest document date is at most 7 days from the voucher date, else +10 if at most
  15, else +5 if at most 30, else 0, and 0 for a document without dates.
\<close>

definition spec_amount_bonus :: "rat \<Rightarrow> doc \<Rightarrow> int" where
  "spec_amount_bonus v_amount d = (if round2 v_amount \<in> round2 ` set (amounts d) then 50 else 0)"

definition spec_alias_bonus :: "(int \<rightharpoonup> creditor) \<Rightarrow> voucher \<Rightarrow> doc \<Rightarrow> int" where
  "spec_alias_bonus creditors v d =
     (case lookup_creditor creditors v of
        None \<Rightarrow> 0
      | Some cred \<Rightarrow> if spec_alias_match (aliases cred) d then 30 else 0)"

definition spec_date_bonus :: "datetime \<Rightarrow> datetime list \<Rightarrow> int" where
  "spec_date_bonus v_date ds =
     (if spec_closest_within 7 v_date v_date ds then 20
      else if spec_closest_within 15 v_date v_date ds then 10
      else if spec_closest_within 30 v_date v_date ds then 5
      else 0)"

definition spec_score ::
  "(string \<Rightarrow> datetime option) \<Rightarrow> (int \<rightharpoonup> creditor) \<Rightarrow> voucher \<Rightarrow> datetime \<Rightarrow> doc \<Rightarrow> int" where
  "spec_score parse creditors v v_date d =
     spec_amount_bonus (Amount v) d + spec_alias_bonus creditors v d
       + spec_date_bonus v_date (parse_dates parse (dates d))"

text \<open>Descending score, ties by file name ascending.\<close>

definition spec_row_before :: "row \<Rightarrow> row \<Rightarrow> bool" where
  "spec_row_before r r' =
     (r_score r' < r_score r \<or> (r_score r' = r_score r \<and> r_file r \<le> r_file r'))"

section \<open>Example data\<close>

text \<open>
  The scenarios of the specification as concrete records: two documents that share the
  amount 500.00, one of them with a vendor line of the creditor Netflix and dated two days
  after the voucher; a monthly subscription starting on 2024-01-05 with a voucher of
  2024-04-06 and a document dated 2024-04-03; a voucher whose date is not an ISO date and a
  voucher whose creditor is not in the catalog.
\<close>

definition ex_netflix :: creditor where
  "ex_netflix = \<lparr> name = ''Netflix'',
     aliases = [\<lparr> prefix = ''NETFLIX'', postfix = '''', frequency = None, start_date = None \<rparr>] \<rparr>"

definition ex_gym :: creditor where
  "ex_gym = \<lparr> name = ''Gym'',
     aliases = [\<lparr> prefix = ''GYM'', postfix = ''APS'', frequency = Some ''monthly'',
                  start_date = Some ''2024-01-05'' \<rparr>] \<rparr>"

definition ex_creditors :: "int \<rightharpoonup> creditor" where
  "ex_creditors = [1 \<mapsto> ex_netflix, 2 \<mapsto> ex_gym]"

definition ex_v1 :: voucher where
  "ex_v1 = \<lparr> VoucherNumber = ''1001'', Date_iso = ''2024-03-10'', Amount = 500,
             CreditorID = Some 1 \<rparr>"

definition ex_bad :: voucher where
  "ex_bad = \<lparr> VoucherNumber = ''1002'', Date_iso = ''10-03-2024'', Amount = 500,
              CreditorID = Some 1 \<rparr>"

definition ex_unknown :: voucher where
  "ex_unknown = \<lparr> VoucherNumber = ''1003'', Date_iso = ''2024-03-10'', Amount = 500,
                  CreditorID = Some 99 \<rparr>"

definition ex_v4 :: voucher where
  "ex_v4 = \<lparr> VoucherNumber = ''1004'', Date_iso = ''2024-04-06'', Amount = 99,
             CreditorID = Some 2 \<rparr>"

definition ex_d1 :: doc where
  "ex_d1 = \<lparr> filename = ''a.pdf'', dates = [''2024-03-12''], amounts = [500, 25 / 2],
             vendors = [''Invoice'', ''NETFLIX INTL''] \<rparr>"

definition ex_d2 :: doc where
  "ex_d2 = \<lparr> filename = ''b.pdf'', dates = [''2024-03-01''], amounts = [500],
             vendors = [''ACME TOOLS''] \<rparr>"

definition ex_d3 :: doc where
  "ex_d3 = \<lparr> filename = ''c.pdf'', dates = [''2024-04-03''], amounts = [99],
             vendors = [''GYM MEMBERSHIP APS''] \<rparr>"

definition ex_undated :: doc where
  "ex_undated = \<lparr> filename = ''u.pdf'', dates = [], amounts = [99],
                  vendors = [''GYM CARD APS''] \<rparr>"

definition ex_dup :: doc where
  "ex_dup = \<lparr> filename = ''d.pdf'', dates = [''2024-04-03''], amounts = [99, 99],
              vendors = [''GYM MEMBERSHIP APS''] \<rparr>"

definition ex_v5 :: voucher where
  "ex_v5 = \<lparr> VoucherNumber = ''1005'', Date_iso = ''2024-04-08'', Amount = 99,
             CreditorID = None \<rparr>"

text \<open>
  Two creditors that share the alias \<^verbatim>\<open>ACME\<close>, the second one also known as \<^verbatim>\<open>BOLT\<close>,
  and one undated document for each name.
\<close>

definition ex_acme :: creditor where
  "ex_acme = \<lparr> name = ''Acme'',
     aliases = [\<lparr> prefix = ''ACME'', postfix = '''', frequency = None, start_date = None \<rparr>] \<rparr>"

definition ex_both :: creditor where
  "ex_both = \<lparr> name = ''Acme Bolt'',
     aliases = [\<lparr> prefix = ''ACME'', postfix = '''', frequency = None, start_date = None \<rparr>,
                \<lparr> prefix = ''BOLT'', postfix = '''', frequency = None, start_date = None \<rparr>] \<rparr>"

definition ex_creditors2 :: "int \<rightharpoonup> creditor" where
  "ex_creditors2 = [1 \<mapsto> ex_acme, 2 \<mapsto> ex_both]"

definition ex_w1 :: voucher where
  "ex_w1 = \<lparr> VoucherNumber = ''2001'', Date_iso = ''2024-03-10'', Amount = 10,
             CreditorID = Some 1 \<rparr>"

definition ex_w2 :: voucher where
  "ex_w2 = \<lparr> VoucherNumber = ''2002'', Date_iso = ''2024-03-10'', Amount = 20,
             CreditorID = Some 2 \<rparr>"

definition ex_e1 :: doc where
  "ex_e1 = \<lparr> filename = ''e1.pdf'', dates = [], amounts = [], vendors = [''ACME GMBH''] \<rparr>"

definition ex_e2 :: doc where
  "ex_e2 = \<lparr> filename = ''e2.pdf'', dates = [], amounts = [], vendors = [''BOLT AS''] \<rparr>"

definition ex_bank :: "voucher list" where
  "ex_bank = [ex_v1, ex_bad, ex_unknown, ex_v4]"

definition ex_docs :: "doc list" where
  "ex_docs = [ex_d1, ex_d2, ex_d3]"

definition ex_vns :: "string list" where
  "ex_vns = [''1001'', ''1002'', ''1003'', ''1004'']"

definition ex_files :: "string list" where
  "ex_files = [''a.pdf'', ''b.pdf'', ''c.pdf'']"

definition ex_gui :: gui where
  "ex_gui = \<lparr> matchinfo = [], self_unmatched_vouchers = [''1001''],
              self_unmatched_docs = ex_files, current_index = 0,
              voucher_map = [''1001'' \<mapsto> ex_v1], doc_records_of = [ex_d3, ex_d2, ex_d1],
              creditors_of = ex_creditors, switch_all_docs = False,
              switch_hide_matched = True, table_data = [] \<rparr>"

section \<open>Closest date: results\<close>

lemma min_by_le:
  "key (min_by key b xs) \<le> key b \<and> (\<forall>x\<in>set xs. key (min_by key b xs) \<le> key x)"
proof (induction xs arbitrary: b)
  case Nil
  show ?case by simp
next
  case (Cons x xs)
  show ?case
  proof (cases "key x < key b")
    case True
    with Cons.IH [of x] show ?thesis by simp
  next
    case False
    with Cons.IH [of b] show ?thesis by fastforce
  qed
qed

lemma min_by_find:
  "List.find (\<lambda>x. key x \<le> key (min_by key b xs)) (b # xs) = Some (min_by key b xs)"
proof (induction xs arbitrary: b)
  case Nil
  show ?case by simp
next
  case (Cons x xs)
  show ?case
  proof (cases "key x < key b")
    case True
    have le: "key (min_by key x xs) \<le> key x" using min_by_le [of key x xs] by simp
    have "\<not> key b \<le> key (min_by key x xs)" using le True by simp
    then show ?thesis using True Cons.IH [of x] by simp
  next
    case False
    have r: "min_by key b (x # xs) = min_by key b xs" using False by simp
    show ?thesis
    proof (cases "key b \<le> key (min_by key b xs)")
      case True
      then show ?thesis using Cons.IH [of b] r by simp
    next
      case nb: False
      then have "\<not> key x \<le> key (min_by key b xs)" using False by simp
      then show ?thesis using Cons.IH [of b] r nb by simp
    qed
  qed
qed

lemma min_by_mem: "min_by key b xs \<in> set (b # xs)"
  by (induction xs arbitrary: b) auto

text \<open>
  Claim C7, as the code has it. The date selected by \<^verbatim>\<open>min(doc_dates, key=...)\<close> minimises
  the absolute day distance to the reference date, and among the dates at that minimum
  distance it is the one listed first: it is the first element of the list whose distance
  does not exceed the minimum.
\<close>

theorem closest_first_minimum:
  "(\<forall>e\<in>set (d # ds). day_distance (closest v_date d ds) v_date \<le> day_distance e v_date) \<and>
   List.find (\<lambda>e. day_distance e v_date \<le> day_distance (closest v_date d ds) v_date) (d # ds)
     = Some (closest v_date d ds)"
  unfolding closest_def
  using min_by_le [of "\<lambda>dd. day_distance dd v_date" d ds]
        min_by_find [of "\<lambda>dd. day_distance dd v_date" d ds]
  by simp

theorem closest_first_minimum_witness:
  "day_distance (closest 10 13 [7, 2]) 10 \<le> day_distance 13 10 \<and>
   day_distance (closest 10 13 [7, 2]) 10 \<le> day_distance 7 10 \<and>
   day_distance (closest 10 13 [7, 2]) 10 \<le> day_distance 2 10 \<and>
   List.find (\<lambda>e. day_distance e 10 \<le> day_distance (closest 10 13 [7, 2]) 10) [13, 7, 2]
     = Some (closest 10 13 [7, 2]) \<and>
   closest 10 13 [7, 2] = 13"
proof -
  note t = closest_first_minimum [of 13 "[7, 2]" 10]
  have a: "\<forall>e\<in>set [13, 7, 2]. day_distance (closest 10 13 [7, 2]) 10 \<le> day_distance e 10"
    using t by blast
  have b: "List.find (\<lambda>e. day_distance e 10 \<le> day_distance (closest 10 13 [7, 2]) 10) [13, 7, 2]
     = Some (closest 10 13 [7, 2])"
    using t by blast
  have c: "closest 10 13 [7, 2] = 13"
    by (simp add: closest_def day_distance_def)
  from a have "day_distance (closest 10 13 [7, 2]) 10 \<le> day_distance 13 10"
    and "day_distance (closest 10 13 [7, 2]) 10 \<le> day_distance 7 10"
    and "day_distance (closest 10 13 [7, 2]) 10 \<le> day_distance 2 10"
    by simp_all
  with b c show ?thesis by blast
qed

text \<open>
  Claim C7, as the specification words it, fails: with the reference date on day 10 and the
  document dates listed as day 13, then day 7, both are 3 days away, and the later date 13 is
  selected, not the earlier date 7.
\<close>

theorem closest_tie_counterexample:
  "closest 10 13 [7] = 13 \<and> day_distance 7 10 = day_distance 13 10 \<and> (7::int) < 13"
  by (simp add: closest_def day_distance_def)

section \<open>Schedule generation: results\<close>

lemma frequency_delta_pos: "0 < frequency_delta freq"
  by (simp add: frequency_delta_def)

lemma map_upt_shift:
  "map (\<lambda>k. c + int k * dl) [0..<Suc n] = c # map (\<lambda>k. (c + dl) + int k * dl) [0..<n]"
proof -
  have "[0..<Suc n] = 0 # map Suc [0..<n]"
    by (simp add: upt_conv_Cons map_Suc_upt del: upt_Suc)
  then have "map (\<lambda>k. c + int k * dl) [0..<Suc n]
      = c # map ((\<lambda>k. c + int k * dl) \<circ> Suc) [0..<n]"
    by (simp del: upt_Suc)
  also have "(\<lambda>k. c + int k * dl) \<circ> Suc = (\<lambda>k. (c + dl) + int k * dl)"
    by (rule ext) (simp add: algebra_simps)
  finally show ?thesis .
qed

lemma schedule_loop_closed:
  "start \<le> current \<Longrightarrow>
   \<exists>n. schedule_loop freq start v_date current acc
         = acc @ map (\<lambda>k. current + int k * frequency_delta freq) [0..<n] \<and>
       (\<forall>k. k < n \<longleftrightarrow> current + int k * frequency_delta freq \<le> v_date + frequency_delta freq)"
proof (induction freq start v_date current acc rule: schedule_loop.induct)
  case (1 freq start v_date current acc)
  let ?dl = "frequency_delta freq"
  have pos: "0 < ?dl" by (rule frequency_delta_pos)
  show ?case
  proof (cases "current \<le> v_date + ?dl")
    case True
    have "start \<le> current + ?dl" using "1.prems" pos by simp
    from "1.IH" [OF True this] obtain n where
      eq: "schedule_loop freq start v_date (current + ?dl)
             (if start \<le> current then acc @ [current] else acc)
           = (if start \<le> current then acc @ [current] else acc)
             @ map (\<lambda>k. (current + ?dl) + int k * ?dl) [0..<n]"
      and bd: "\<forall>k. k < n \<longleftrightarrow> (current + ?dl) + int k * ?dl \<le> v_date + ?dl"
      by blast
    have unf: "schedule_loop freq start v_date current acc
        = schedule_loop freq start v_date (current + ?dl)
             (if start \<le> current then acc @ [current] else acc)"
      using True by (subst schedule_loop.simps) simp
    have "schedule_loop freq start v_date current acc
        = acc @ map (\<lambda>k. current + int k * ?dl) [0..<Suc n]"
      unfolding unf eq map_upt_shift using "1.prems" by simp
    moreover have "\<forall>k. k < Suc n \<longleftrightarrow> current + int k * ?dl \<le> v_date + ?dl"
    proof
      fix k
      show "k < Suc n \<longleftrightarrow> current + int k * ?dl \<le> v_date + ?dl"
      proof (cases k)
        case 0
        then show ?thesis using True by simp
      next
        case (Suc j)
        have "(current + ?dl) + int j * ?dl = current + int (Suc j) * ?dl"
          by (simp add: algebra_simps)
        then show ?thesis using bd Suc by (metis Suc_less_eq)
      qed
    qed
    ultimately show ?thesis by blast
  next
    case False
    have unf: "schedule_loop freq start v_date current acc = acc"
      using False by (subst schedule_loop.simps) simp
    have "\<forall>k. \<not> current + int k * ?dl \<le> v_date + ?dl"
    proof
      fix k
      have "0 \<le> int k * ?dl" using pos by simp
      then show "\<not> current + int k * ?dl \<le> v_date + ?dl" using False by linarith
    qed
    then have "\<forall>k. k < (0::nat) \<longleftrightarrow> current + int k * ?dl \<le> v_date + ?dl" by simp
    moreover have "schedule_loop freq start v_date current acc
        = acc @ map (\<lambda>k. current + int k * ?dl) [0..<0]" using unf by simp
    ultimately show ?thesis by blast
  qed
qed

text \<open>
  Claim C9. The schedule loop is a total function (its termination is proved with the
  definition: the step is a positive day count taken from the frequency table, 30 for
  monthly, 90 for quarterly, 180 for semi-annual, 60 for bimonthly and 30 for any other
  frequency), and the list it returns is exactly \<open>start + k * period\<close> for \<open>k = 0, 1, 2, ...\<close>
  as long as that date is not after the voucher date plus one period; it is empty when the
  voucher date plus one period precedes the start date.
\<close>

theorem expected_schedule_exact:
  "frequency_delta freq =
     (if freq = ''monthly'' then 30 else if freq = ''quarterly'' then 90
      else if freq = ''semi-annual'' then 180 else if freq = ''bimonthly'' then 60 else 30) \<and>
   (\<exists>n. expected_schedule freq start v_date
          = map (\<lambda>k. start + int k * frequency_delta freq) [0..<n] \<and>
        (\<forall>k. k < n \<longleftrightarrow>
           start + int k * frequency_delta freq \<le> v_date + frequency_delta freq)) \<and>
   (v_date + frequency_delta freq < start \<longrightarrow> expected_schedule freq start v_date = [])"
proof -
  have a: "frequency_delta freq =
     (if freq = ''monthly'' then 30 else if freq = ''quarterly'' then 90
      else if freq = ''semi-annual'' then 180 else if freq = ''bimonthly'' then 60 else 30)"
    by (simp add: frequency_delta_def)
  have b: "\<exists>n. expected_schedule freq start v_date
          = map (\<lambda>k. start + int k * frequency_delta freq) [0..<n] \<and>
        (\<forall>k. k < n \<longleftrightarrow>
           start + int k * frequency_delta freq \<le> v_date + frequency_delta freq)"
    unfolding expected_schedule_def
    using schedule_loop_closed [of start start freq v_date "[]"] by simp
  have c: "v_date + frequency_delta freq < start \<longrightarrow> expected_schedule freq start v_date = []"
    unfolding expected_schedule_def by (subst schedule_loop.simps) simp
  from a b c show ?thesis by blast
qed

lemma schedule_example:
  "expected_schedule ''monthly'' 738890 738982 = [738890, 738920, 738950, 738980, 739010]"
  by (simp add: expected_schedule_def schedule_loop.simps frequency_delta_def)

theorem expected_schedule_exact_witness:
  "expected_schedule ''monthly'' 738890 738982 = [738890, 738920, 738950, 738980, 739010] \<and>
   frequency_delta ''monthly'' = 30 \<and>
   (\<exists>n. expected_schedule ''monthly'' 738890 738982
          = map (\<lambda>k. 738890 + int k * frequency_delta ''monthly'') [0..<n] \<and>
        (\<forall>k. k < n \<longleftrightarrow>
           738890 + int k * frequency_delta ''monthly'' \<le> 738982 + frequency_delta ''monthly''))"
proof -
  note t = expected_schedule_exact [of "''monthly''" 738890 738982]
  have a: "frequency_delta ''monthly'' = 30" using t by simp
  have b: "\<exists>n. expected_schedule ''monthly'' 738890 738982
          = map (\<lambda>k. 738890 + int k * frequency_delta ''monthly'') [0..<n] \<and>
        (\<forall>k. k < n \<longleftrightarrow>
           738890 + int k * frequency_delta ''monthly'' \<le> 738982 + frequency_delta ''monthly'')"
    using t by blast
  from schedule_example a b show ?thesis by blast
qed

section \<open>Pass B: results\<close>

subsection \<open>Dictionary writes in a loop\<close>

lemma set_update_subset: "set (AList.update k v al) \<subseteq> insert (k, v) (set al)"
  by (induction al) auto

lemma keys_update: "fst ` set (AList.update k v al) = insert k (fst ` set al)"
  by (induction al) auto

lemma foldl_emit_snoc:
  assumes step: "\<And>a x. step a x =
    (case emit x of None \<Rightarrow> a | Some c \<Rightarrow> AList.update (key x) c a)"
  shows "map_of (foldl step acc (vs @ [v])) k =
    (case emit v of None \<Rightarrow> map_of (foldl step acc vs) k
     | Some cs \<Rightarrow> if key v = k then Some cs else map_of (foldl step acc vs) k)"
  by (simp add: step update_conv' split: option.split)

lemma foldl_emit_other:
  assumes step: "\<And>a x. step a x =
    (case emit x of None \<Rightarrow> a | Some c \<Rightarrow> AList.update (key x) c a)"
  shows "k \<notin> key ` set vs \<Longrightarrow> map_of (foldl step acc vs) k = map_of acc k"
proof (induction vs rule: rev_induct)
  case Nil
  show ?case by simp
next
  case (snoc v vs)
  then show ?case using foldl_emit_snoc [of step key emit acc vs v k, OF step]
    by (auto split: option.split)
qed

lemma foldl_emit_distinct:
  assumes step: "\<And>a x. step a x =
    (case emit x of None \<Rightarrow> a | Some c \<Rightarrow> AList.update (key x) c a)"
  shows "w \<in> set vs \<Longrightarrow> distinct (map key vs) \<Longrightarrow> map_of acc (key w) = None \<Longrightarrow>
         map_of (foldl step acc vs) (key w) = emit w"
proof (induction vs rule: rev_induct)
  case Nil
  then show ?case by simp
next
  case (snoc v vs)
  note sn = foldl_emit_snoc [of step key emit acc vs v "key w", OF step]
  show ?case
  proof (cases "w = v")
    case True
    have "key v \<notin> key ` set vs" using snoc.prems(2) by auto
    then have "map_of (foldl step acc vs) (key v) = None"
      using foldl_emit_other [of step key emit "key v" vs acc, OF step] snoc.prems(3) True by simp
    then show ?thesis using sn True by (simp split: option.split)
  next
    case False
    then have w: "w \<in> set vs" using snoc.prems(1) by simp
    have d: "distinct (map key vs)" using snoc.prems(2) by simp
    have ne: "key v \<noteq> key w" using snoc.prems(2) w by auto
    have "map_of (foldl step acc vs) (key w) = emit w" using snoc.IH [OF w d snoc.prems(3)] .
    then show ?thesis using sn ne by (simp split: option.split)
  qed
qed

lemma foldl_emit_entries:
  assumes step: "\<And>a x. step a x =
    (case emit x of None \<Rightarrow> a | Some c \<Rightarrow> AList.update (key x) c a)"
  shows "(k, cs) \<in> set (foldl step acc vs) \<Longrightarrow>
         (k, cs) \<in> set acc \<or> (\<exists>v\<in>set vs. key v = k \<and> emit v = Some cs)"
proof (induction vs arbitrary: cs rule: rev_induct)
  case Nil
  then show ?case by simp
next
  case (snoc v vs)
  show ?case
  proof (cases "emit v")
    case None
    then have "foldl step acc (vs @ [v]) = foldl step acc vs" by (simp add: step)
    then show ?thesis using snoc by auto
  next
    case (Some c)
    then have "foldl step acc (vs @ [v]) = AList.update (key v) c (foldl step acc vs)"
      by (simp add: step)
    then have "(k, cs) = (key v, c) \<or> (k, cs) \<in> set (foldl step acc vs)"
      using snoc.prems set_update_subset [of "key v" c "foldl step acc vs"] by auto
    then show ?thesis using snoc.IH Some by auto
  qed
qed

lemma foldl_emit_skip:
  assumes "\<And>acc. step acc bad = acc"
  shows "foldl step acc (xs @ bad # ys) = foldl step acc (xs @ ys)"
  by (simp add: assms)

lemma foldl_emit_distinct_keys:
  assumes step: "\<And>a x. step a x =
    (case emit x of None \<Rightarrow> a | Some c \<Rightarrow> AList.update (key x) c a)"
  shows "distinct (map fst acc) \<Longrightarrow> distinct (map fst (foldl step acc vs))"
proof (induction vs rule: rev_induct)
  case Nil
  then show ?case by simp
next
  case (snoc v vs)
  then show ?case by (simp add: step distinct_update split: option.split)
qed

subsection \<open>Alias loops\<close>

lemma line_matches_alias_list_iff:
  "line_matches_alias_list alias_list line \<longleftrightarrow>
     (\<exists>pq\<in>set alias_list. alias_hit (fst pq) (snd pq) line)"
  by (induction alias_list line rule: line_matches_alias_list.induct) auto

lemma vendor_lines_match_iff:
  "vendor_lines_match alias_list vendor_lines \<longleftrightarrow>
     (\<exists>line\<in>set vendor_lines. \<exists>pq\<in>set alias_list. alias_hit (fst pq) (snd pq) line)"
  by (induction vendor_lines) (auto simp: line_matches_alias_list_iff)

lemma vendor_lines_match_spec:
  "vendor_lines_match (alias_pairs cred) (vendors d) \<longleftrightarrow> spec_alias_match (aliases cred) d"
  by (auto simp: vendor_lines_match_iff alias_pairs_def spec_alias_match_def alias_hit_def)

lemma alias_matches_lines_iff:
  "alias_matches_lines a vendor_lines \<longleftrightarrow>
     (\<exists>line\<in>set vendor_lines. alias_hit (prefix a) (postfix a) line)"
  by (induction vendor_lines) auto

lemma aliases_match_iff:
  "aliases_match als vendor_lines \<longleftrightarrow>
     (\<exists>a\<in>set als. \<exists>line\<in>set vendor_lines. alias_hit (prefix a) (postfix a) line)"
  by (induction als) (auto simp: alias_matches_lines_iff)

lemma aliases_match_spec: "aliases_match als (vendors d) \<longleftrightarrow> spec_alias_match als d"
  by (auto simp: aliases_match_iff spec_alias_match_def alias_hit_def)

subsection \<open>Closest date within a window\<close>

lemma closest_mem: "closest v_date d ds \<in> set (d # ds)"
  unfolding closest_def by (rule min_by_mem)

lemma closest_le:
  "e \<in> set (d # ds) \<Longrightarrow> day_distance (closest v_date d ds) v_date \<le> day_distance e v_date"
  unfolding closest_def using min_by_le [of "\<lambda>dd. day_distance dd v_date" d ds] by auto

lemma closest_within_spec:
  "day_distance (closest v_date d ds) v_date \<le> n \<longleftrightarrow>
     spec_closest_within n v_date v_date (d # ds)"
proof
  assume h: "day_distance (closest v_date d ds) v_date \<le> n"
  have "closest v_date d ds \<in> set (d # ds)" by (rule closest_mem)
  moreover have "\<forall>e'\<in>set (d # ds).
      day_distance (closest v_date d ds) v_date \<le> day_distance e' v_date"
    using closest_le by blast
  ultimately show "spec_closest_within n v_date v_date (d # ds)"
    unfolding spec_closest_within_def using h by blast
next
  assume "spec_closest_within n v_date v_date (d # ds)"
  then obtain e where e: "e \<in> set (d # ds)" "day_distance e v_date \<le> n"
    unfolding spec_closest_within_def by blast
  from closest_le [OF e(1), of v_date] e(2)
  show "day_distance (closest v_date d ds) v_date \<le> n"
    by linarith
qed

lemma date_window_ok_spec:
  "date_window_ok v_date ds \<longleftrightarrow> (spec_closest_within 15 v_date v_date ds \<or> ds = [])"
proof (cases ds)
  case Nil
  then show ?thesis by (simp add: date_window_ok_def)
next
  case (Cons d ds')
  then show ?thesis by (simp add: date_window_ok_def closest_within_spec)
qed

lemma pass_b_candidate_spec:
  "pass_b_candidate parse unmatched_docs (alias_pairs cred) v_date d \<longleftrightarrow>
     spec_pass_b_candidate parse unmatched_docs cred v_date d"
  by (simp add: pass_b_candidate_def spec_pass_b_candidate_def vendor_lines_match_spec
      date_window_ok_spec)

lemma pass_b_candidates_spec:
  "pass_b_candidates parse doc_records unmatched_docs (alias_pairs cred) v_date =
     map filename (filter (spec_pass_b_candidate parse unmatched_docs cred v_date) doc_records)"
proof -
  have "pass_b_candidate parse unmatched_docs (alias_pairs cred) v_date
      = spec_pass_b_candidate parse unmatched_docs cred v_date"
    by (rule ext) (rule pass_b_candidate_spec)
  then show ?thesis by (simp add: pass_b_candidates_def)
qed

subsection \<open>Pass B as a loop of writes\<close>

lemma pass_b_step_emit:
  "pass_b_step parse doc_records unmatched_vouchers unmatched_docs creditors a x =
     (case pass_b_emit parse doc_records unmatched_vouchers unmatched_docs creditors x of
        None \<Rightarrow> a | Some c \<Rightarrow> AList.update (VoucherNumber x) c a)"
  by (simp add: pass_b_step_def pass_b_emit_def Let_def split: option.split)

lemma pass_b_lookup:
  assumes "distinct (map VoucherNumber bank_records)" and "v \<in> set bank_records"
  shows "map_of (pass_b_alias_date parse bank_records doc_records unmatched_vouchers
                   unmatched_docs creditors) (VoucherNumber v)
         = pass_b_emit parse doc_records unmatched_vouchers unmatched_docs creditors v"
  unfolding pass_b_alias_date_def
  using foldl_emit_distinct [of "pass_b_step parse doc_records unmatched_vouchers unmatched_docs creditors"
      VoucherNumber "pass_b_emit parse doc_records unmatched_vouchers unmatched_docs creditors"
      v bank_records "[]", OF pass_b_step_emit] assms
  by simp

text \<open>
  Claim C4. For a voucher that Pass B handles (its number is in the unmatched list, its
  creditor is in the catalog, its date parses; voucher numbers are unique), the candidates
  are exactly the documents of the unmatched pool that some alias of the creditor matches
  on some vendor line and whose closest date is at most 15 days from the voucher date, or
  that have no date at all; the pass writes the match exactly when there is one candidate,
  and the match is that document.
\<close>

theorem pass_b_rule:
  assumes "distinct (map VoucherNumber bank_records)"
    and "v \<in> set bank_records"
    and "VoucherNumber v \<in> set unmatched_vouchers"
    and "lookup_creditor creditors v = Some cred"
    and "parse (Date_iso v) = Some v_date"
  shows "map_of (pass_b_alias_date parse bank_records doc_records unmatched_vouchers
                   unmatched_docs creditors) (VoucherNumber v)
         = (let candidates =
                  filter (spec_pass_b_candidate parse unmatched_docs cred v_date) doc_records
            in if length candidates = 1 then Some (map filename candidates) else None)"
  using pass_b_lookup [OF assms(1,2)] assms(3,4,5)
  by (simp add: pass_b_emit_def pass_b_candidates_spec Let_def)

lemmas iso_ymd_eval = iso_ymd_def digit_of_def days_in_month_def days_before_year_def
  days_before_month_def is_leap_def upto.simps

lemma ex_dates:
  "iso_ymd ''2024-03-10'' = Some 738955"
  "iso_ymd ''2024-03-12'' = Some 738957"
  "iso_ymd ''2024-03-01'' = Some 738946"
  "iso_ymd ''2024-04-06'' = Some 738982"
  "iso_ymd ''2024-04-03'' = Some 738979"
  "iso_ymd ''2024-01-05'' = Some 738890"
  "iso_ymd ''10-03-2024'' = None"
  by (simp_all add: iso_ymd_eval)

lemmas ex_data = ex_netflix_def ex_gym_def ex_creditors_def ex_v1_def ex_bad_def
  ex_unknown_def ex_v4_def ex_d1_def ex_d2_def ex_d3_def ex_bank_def ex_docs_def
  ex_vns_def ex_files_def

lemma ex_parse_dates:
  "parse_dates iso_ymd (dates ex_d1) = [738957]"
  "parse_dates iso_ymd (dates ex_d2) = [738946]"
  "parse_dates iso_ymd (dates ex_d3) = [738979]"
  by (simp_all add: parse_dates_def List.map_filter_def ex_data ex_dates)

lemma ex_pass_b_candidates:
  "filter (spec_pass_b_candidate iso_ymd ex_files ex_netflix 738955) ex_docs = [ex_d1]"
proof -
  have 1: "spec_pass_b_candidate iso_ymd ex_files ex_netflix 738955 ex_d1"
    unfolding spec_pass_b_candidate_def ex_parse_dates
    by (simp add: ex_data spec_alias_match_def spec_closest_within_def day_distance_def
        startswith_def endswith_def)
  have 2: "\<not> spec_pass_b_candidate iso_ymd ex_files ex_netflix 738955 ex_d2"
    unfolding spec_pass_b_candidate_def ex_parse_dates
    by (simp add: ex_data spec_alias_match_def startswith_def)
  have 3: "\<not> spec_pass_b_candidate iso_ymd ex_files ex_netflix 738955 ex_d3"
    unfolding spec_pass_b_candidate_def ex_parse_dates
    by (simp add: ex_data spec_alias_match_def startswith_def)
  show ?thesis unfolding ex_docs_def using 1 2 3 by simp
qed

text \<open>Scenario 2 of the specification: of two documents sharing the amount 500.00, the one
  with the vendor line \<^verbatim>\<open>NETFLIX INTL\<close>, dated two days after the voucher, is matched.\<close>

theorem pass_b_rule_witness:
  "distinct (map VoucherNumber ex_bank) \<and> ex_v1 \<in> set ex_bank \<and>
   VoucherNumber ex_v1 \<in> set ex_vns \<and>
   lookup_creditor ex_creditors ex_v1 = Some ex_netflix \<and>
   iso_ymd (Date_iso ex_v1) = Some 738955 \<and>
   map_of (pass_b_alias_date iso_ymd ex_bank ex_docs ex_vns ex_files ex_creditors) ''1001''
     = Some [''a.pdf'']"
proof -
  have h1: "distinct (map VoucherNumber ex_bank)" by (simp add: ex_data)
  have h2: "ex_v1 \<in> set ex_bank" by (simp add: ex_bank_def)
  have h3: "VoucherNumber ex_v1 \<in> set ex_vns" by (simp add: ex_v1_def ex_vns_def)
  have h4: "lookup_creditor ex_creditors ex_v1 = Some ex_netflix"
    by (simp add: lookup_creditor_def ex_v1_def ex_creditors_def)
  have h5: "iso_ymd (Date_iso ex_v1) = Some 738955" by (simp add: ex_v1_def ex_dates)
  have vn: "VoucherNumber ex_v1 = ''1001''" by (simp add: ex_v1_def)
  have "map_of (pass_b_alias_date iso_ymd ex_bank ex_docs ex_vns ex_files ex_creditors)
          (VoucherNumber ex_v1) = Some [filename ex_d1]"
    using pass_b_rule [where parse = iso_ymd and doc_records = ex_docs and unmatched_docs = ex_files,
        OF h1 h2 h3 h4 h5]
    by (simp add: ex_pass_b_candidates)
  then have "map_of (pass_b_alias_date iso_ymd ex_bank ex_docs ex_vns ex_files ex_creditors)
          ''1001'' = Some [''a.pdf'']"
    by (simp add: vn ex_d1_def)
  with h1 h2 h3 h4 h5 show ?thesis by blast
qed

section \<open>Pass B does not read amounts\<close>

lemma pass_b_candidates_proj:
  "pass_b_candidates parse doc_records unmatched_docs alias_list v_date =
     map fst (filter (\<lambda>t. fst t \<in> set unmatched_docs \<and>
                          vendor_lines_match alias_list (snd (snd t)) \<and>
                          date_window_ok v_date (parse_dates parse (fst (snd t))))
                (map (\<lambda>d. (filename d, dates d, vendors d)) doc_records))"
proof -
  have "pass_b_candidate parse unmatched_docs alias_list v_date
      = (\<lambda>d. filename d \<in> set unmatched_docs \<and>
               vendor_lines_match alias_list (vendors d) \<and>
               date_window_ok v_date (parse_dates parse (dates d)))"
    by (rule ext) (simp add: pass_b_candidate_def)
  then show ?thesis by (simp add: pass_b_candidates_def filter_map comp_def)
qed

text \<open>
  Claim C10. Two inputs whose documents agree, in order, on file name, date strings and
  vendor lines, that is, inputs identical except in the amounts of the documents, give the
  same Pass B result: Pass B never reads an amount.
\<close>

theorem pass_b_ignores_amounts:
  assumes "map (\<lambda>d. (filename d, dates d, vendors d)) doc_records
         = map (\<lambda>d. (filename d, dates d, vendors d)) doc_records'"
  shows "pass_b_alias_date parse bank_records doc_records unmatched_vouchers unmatched_docs
           creditors
       = pass_b_alias_date parse bank_records doc_records' unmatched_vouchers unmatched_docs
           creditors"
proof -
  have c: "\<And>alias_list v_date.
      pass_b_candidates parse doc_records unmatched_docs alias_list v_date
    = pass_b_candidates parse doc_records' unmatched_docs alias_list v_date"
    unfolding pass_b_candidates_proj assms ..
  have "pass_b_step parse doc_records unmatched_vouchers unmatched_docs creditors
      = pass_b_step parse doc_records' unmatched_vouchers unmatched_docs creditors"
    by (rule ext, rule ext) (simp add: pass_b_step_def c Let_def split: option.split)
  then show ?thesis by (simp add: pass_b_alias_date_def)
qed

lemma ex_pass_b_value:
  "pass_b_alias_date iso_ymd ex_bank ex_docs ex_vns ex_files ex_creditors
     = [(''1001'', [''a.pdf'']), (''1004'', [''c.pdf''])]"
proof -
  have c1: "pass_b_candidates iso_ymd ex_docs ex_files (alias_pairs ex_netflix) 738955
      = [''a.pdf'']"
    unfolding pass_b_candidates_spec ex_pass_b_candidates by (simp add: ex_d1_def)
  have d3: "\<not> spec_pass_b_candidate iso_ymd ex_files ex_gym 738982 ex_d1"
    "\<not> spec_pass_b_candidate iso_ymd ex_files ex_gym 738982 ex_d2"
    "spec_pass_b_candidate iso_ymd ex_files ex_gym 738982 ex_d3"
    unfolding spec_pass_b_candidate_def ex_parse_dates
    by (simp_all add: ex_data spec_alias_match_def spec_closest_within_def day_distance_def
        startswith_def endswith_def)
  have c4: "pass_b_candidates iso_ymd ex_docs ex_files (alias_pairs ex_gym) 738982
      = [''c.pdf'']"
    unfolding pass_b_candidates_spec using d3 by (simp add: ex_docs_def) (simp add: ex_d3_def)
  have s1: "pass_b_step iso_ymd ex_docs ex_vns ex_files ex_creditors [] ex_v1
      = [(''1001'', [''a.pdf''])]"
    using c1 by (simp add: pass_b_step_def lookup_creditor_def ex_v1_def ex_creditors_def
        ex_vns_def ex_dates)
  have s2: "\<And>acc. pass_b_step iso_ymd ex_docs ex_vns ex_files ex_creditors acc ex_bad = acc"
    by (simp add: pass_b_step_def lookup_creditor_def ex_bad_def ex_creditors_def
        ex_vns_def ex_dates)
  have s3: "\<And>acc. pass_b_step iso_ymd ex_docs ex_vns ex_files ex_creditors acc ex_unknown = acc"
    by (simp add: pass_b_step_def lookup_creditor_def ex_unknown_def ex_creditors_def
        ex_vns_def)
  have s4: "pass_b_step iso_ymd ex_docs ex_vns ex_files ex_creditors
        [(''1001'', [''a.pdf''])] ex_v4 = [(''1001'', [''a.pdf'']), (''1004'', [''c.pdf''])]"
    using c4 by (simp add: pass_b_step_def lookup_creditor_def ex_v4_def ex_creditors_def
        ex_vns_def ex_dates)
  show ?thesis by (simp add: pass_b_alias_date_def ex_bank_def s1 s2 s3 s4)
qed

text \<open>
  With every amount removed from the example documents, so that no document contains the
  amount of any voucher, Pass B still commits the same two matches.
\<close>

theorem pass_b_ignores_amounts_witness:
  "map (\<lambda>d. (filename d, dates d, vendors d)) ex_docs
     = map (\<lambda>d. (filename d, dates d, vendors d)) (map (\<lambda>d. d\<lparr>amounts := []\<rparr>) ex_docs) \<and>
   pass_b_alias_date iso_ymd ex_bank (map (\<lambda>d. d\<lparr>amounts := []\<rparr>) ex_docs) ex_vns ex_files
     ex_creditors = [(''1001'', [''a.pdf'']), (''1004'', [''c.pdf''])]"
proof -
  have h: "map (\<lambda>d. (filename d, dates d, vendors d)) ex_docs
     = map (\<lambda>d. (filename d, dates d, vendors d)) (map (\<lambda>d. d\<lparr>amounts := []\<rparr>) ex_docs)"
    by simp
  from pass_b_ignores_amounts [OF h, of iso_ymd ex_bank ex_vns ex_files ex_creditors]
    ex_pass_b_value h
  show ?thesis by simp
qed

section \<open>Skipping a voucher\<close>

lemma pass_c_step_emit:
  "pass_c_step parse doc_records unmatched_vouchers unmatched_docs creditors a x =
     (case pass_c_emit parse doc_records unmatched_vouchers unmatched_docs creditors x of
        None \<Rightarrow> a | Some c \<Rightarrow> AList.update (VoucherNumber x) c a)"
  by (simp add: pass_c_step_def pass_c_emit_def Let_def split: option.split)

lemma pass_b_entries:
  assumes "(k, cs) \<in> set (pass_b_alias_date parse bank_records doc_records unmatched_vouchers
                            unmatched_docs creditors)"
  shows "\<exists>v\<in>set bank_records. VoucherNumber v = k \<and>
           pass_b_emit parse doc_records unmatched_vouchers unmatched_docs creditors v = Some cs"
  using foldl_emit_entries [of "pass_b_step parse doc_records unmatched_vouchers unmatched_docs creditors"
        VoucherNumber "pass_b_emit parse doc_records unmatched_vouchers unmatched_docs creditors"
        k cs "[]" bank_records, OF pass_b_step_emit] assms
  unfolding pass_b_alias_date_def by simp

lemma pass_c_entries:
  assumes "(k, cs) \<in> set (pass_c_subscription parse bank_records doc_records unmatched_vouchers
                            unmatched_docs creditors)"
  shows "\<exists>v\<in>set bank_records. VoucherNumber v = k \<and>
           pass_c_emit parse doc_records unmatched_vouchers unmatched_docs creditors v = Some cs"
  using foldl_emit_entries [of "pass_c_step parse doc_records unmatched_vouchers unmatched_docs creditors"
        VoucherNumber "pass_c_emit parse doc_records unmatched_vouchers unmatched_docs creditors"
        k cs "[]" bank_records, OF pass_c_step_emit] assms
  unfolding pass_c_subscription_def by simp

lemma pass_b_keys:
  assumes "k \<in> fst ` set (pass_b_alias_date parse bank_records doc_records unmatched_vouchers
                            unmatched_docs creditors)"
  shows "k \<in> VoucherNumber ` set bank_records"
proof -
  from assms obtain cs where "(k, cs) \<in> set (pass_b_alias_date parse bank_records doc_records
      unmatched_vouchers unmatched_docs creditors)" by auto
  from pass_b_entries [OF this] obtain v where "v \<in> set bank_records" "VoucherNumber v = k"
    by auto
  then show ?thesis by (metis imageI)
qed

lemma pass_c_keys:
  assumes "k \<in> fst ` set (pass_c_subscription parse bank_records doc_records unmatched_vouchers
                            unmatched_docs creditors)"
  shows "k \<in> VoucherNumber ` set bank_records"
proof -
  from assms obtain cs where "(k, cs) \<in> set (pass_c_subscription parse bank_records doc_records
      unmatched_vouchers unmatched_docs creditors)" by auto
  from pass_c_entries [OF this] obtain v where "v \<in> set bank_records" "VoucherNumber v = k"
    by auto
  then show ?thesis by (metis imageI)
qed

text \<open>
  Claim C8. A voucher whose date string does not parse, or whose creditor is not in the
  catalog, is skipped by Pass B and by Pass C: each pass returns exactly what it returns on
  the input without that voucher, wherever the voucher stands in the input, and, when no
  other voucher carries its number, the result has no entry for it. The passes are total
  functions: the parse failure is the \<open>None\<close> branch and nothing else can fail.
\<close>

theorem skip_bad_voucher:
  assumes "parse (Date_iso bad) = None \<or> lookup_creditor creditors bad = None"
  shows "pass_b_alias_date parse (xs @ bad # ys) doc_records unmatched_vouchers unmatched_docs
           creditors
         = pass_b_alias_date parse (xs @ ys) doc_records unmatched_vouchers unmatched_docs
             creditors \<and>
         pass_c_subscription parse (xs @ bad # ys) doc_records unmatched_vouchers unmatched_docs
           creditors
         = pass_c_subscription parse (xs @ ys) doc_records unmatched_vouchers unmatched_docs
             creditors \<and>
         (VoucherNumber bad \<notin> VoucherNumber ` set (xs @ ys) \<longrightarrow>
            VoucherNumber bad \<notin> fst ` set (pass_b_alias_date parse (xs @ bad # ys) doc_records
                                             unmatched_vouchers unmatched_docs creditors) \<and>
            VoucherNumber bad \<notin> fst ` set (pass_c_subscription parse (xs @ bad # ys) doc_records
                                             unmatched_vouchers unmatched_docs creditors))"
proof -
  have eb: "pass_b_emit parse doc_records unmatched_vouchers unmatched_docs creditors bad = None"
    using assms by (auto simp: pass_b_emit_def split: option.split)
  have ec: "pass_c_emit parse doc_records unmatched_vouchers unmatched_docs creditors bad = None"
    using assms by (auto simp: pass_c_emit_def split: option.split)
  have sb: "\<And>acc. pass_b_step parse doc_records unmatched_vouchers unmatched_docs creditors
               acc bad = acc"
    by (simp add: pass_b_step_emit eb)
  have sc: "\<And>acc. pass_c_step parse doc_records unmatched_vouchers unmatched_docs creditors
               acc bad = acc"
    by (simp add: pass_c_step_emit ec)
  have b: "pass_b_alias_date parse (xs @ bad # ys) doc_records unmatched_vouchers unmatched_docs
           creditors
         = pass_b_alias_date parse (xs @ ys) doc_records unmatched_vouchers unmatched_docs
             creditors"
    unfolding pass_b_alias_date_def by (rule foldl_emit_skip) (rule sb)
  have c: "pass_c_subscription parse (xs @ bad # ys) doc_records unmatched_vouchers
             unmatched_docs creditors
         = pass_c_subscription parse (xs @ ys) doc_records unmatched_vouchers unmatched_docs
             creditors"
    unfolding pass_c_subscription_def by (rule foldl_emit_skip) (rule sc)
  have kb: "VoucherNumber bad \<notin> fst ` set (pass_b_alias_date parse (xs @ ys) doc_records
                                             unmatched_vouchers unmatched_docs creditors)"
    if "VoucherNumber bad \<notin> VoucherNumber ` set (xs @ ys)"
    using that pass_b_keys by metis
  have kc: "VoucherNumber bad \<notin> fst ` set (pass_c_subscription parse (xs @ ys) doc_records
                                             unmatched_vouchers unmatched_docs creditors)"
    if "VoucherNumber bad \<notin> VoucherNumber ` set (xs @ ys)"
    using that pass_c_keys by metis
  show ?thesis using b c kb kc by simp
qed


lemma ex_round2: "round2 99 = 9900" "round2 500 = 50000" "round2 (25 / 2) = 1250"
  by (simp_all add: round2_def Let_def)

lemma ex_pass_c_candidates:
  "pass_c_candidates iso_ymd ex_docs ex_files (subscription_aliases ex_gym) 738982 99
     = [''c.pdf'']"
proof -
  have subs: "subscription_aliases ex_gym = aliases ex_gym"
    by (simp add: subscription_aliases_def ex_gym_def truthy_def)
  have d1: "pass_c_doc_appends iso_ymd ex_files (aliases ex_gym) 738982 99 ex_d1 = []"
    by (simp add: pass_c_doc_appends_def ex_d1_def ex_files_def ex_round2)
  have d2: "pass_c_doc_appends iso_ymd ex_files (aliases ex_gym) 738982 99 ex_d2 = []"
    by (simp add: pass_c_doc_appends_def ex_d2_def ex_files_def ex_round2)
  have al: "aliases_match (aliases ex_gym) (vendors ex_d3)"
    by (simp add: ex_gym_def ex_d3_def alias_hit_def startswith_def endswith_def)
  have ap: "pass_c_alias_appends iso_ymd 738982 [738979] ''c.pdf'' (hd (aliases ex_gym))
      = [''c.pdf'']"
    by (simp add: pass_c_alias_appends_def ex_gym_def truthy_def ex_dates schedule_example
        closest_def day_distance_def)
  have d3: "pass_c_doc_appends iso_ymd ex_files (aliases ex_gym) 738982 99 ex_d3 = [''c.pdf'']"
    unfolding pass_c_doc_appends_def ex_parse_dates using al ap
    by (simp add: ex_d3_def ex_files_def ex_round2 ex_gym_def)
  show ?thesis unfolding subs pass_c_candidates_def ex_docs_def using d1 d2 d3 by simp
qed

lemma ex_lookup:
  "lookup_creditor ex_creditors ex_v1 = Some ex_netflix"
  "lookup_creditor ex_creditors ex_bad = Some ex_netflix"
  "lookup_creditor ex_creditors ex_unknown = None"
  "lookup_creditor ex_creditors ex_v4 = Some ex_gym"
  by (simp_all add: lookup_creditor_def ex_v1_def ex_bad_def ex_unknown_def ex_v4_def
      ex_creditors_def)

lemma ex_pass_c_steps:
  "pass_c_step iso_ymd ex_docs ex_vns ex_files ex_creditors acc ex_v1 = acc"
  "pass_c_step iso_ymd ex_docs ex_vns ex_files ex_creditors acc ex_bad = acc"
  "pass_c_step iso_ymd ex_docs ex_vns ex_files ex_creditors acc ex_unknown = acc"
  "pass_c_step iso_ymd ex_docs ex_vns ex_files ex_creditors [] ex_v4 = [(''1004'', [''c.pdf''])]"
proof -
  have n: "subscription_aliases ex_netflix = []"
    by (simp add: subscription_aliases_def ex_netflix_def truthy_def)
  have g: "subscription_aliases ex_gym \<noteq> []"
    by (simp add: subscription_aliases_def ex_gym_def truthy_def)
  show "pass_c_step iso_ymd ex_docs ex_vns ex_files ex_creditors acc ex_v1 = acc"
    by (simp add: pass_c_step_emit pass_c_emit_def ex_lookup n)
  show "pass_c_step iso_ymd ex_docs ex_vns ex_files ex_creditors acc ex_bad = acc"
    by (simp add: pass_c_step_emit pass_c_emit_def ex_lookup n)
  show "pass_c_step iso_ymd ex_docs ex_vns ex_files ex_creditors acc ex_unknown = acc"
    by (simp add: pass_c_step_emit pass_c_emit_def ex_lookup)
  have vn: "VoucherNumber ex_v4 = ''1004''" "Date_iso ex_v4 = ''2024-04-06''" "Amount ex_v4 = 99"
    by (simp_all add: ex_v4_def)
  have "pass_c_emit iso_ymd ex_docs ex_vns ex_files ex_creditors ex_v4 = Some [''c.pdf'']"
    unfolding pass_c_emit_def ex_lookup vn using g
    by (simp add: ex_vns_def ex_dates ex_pass_c_candidates)
  then show "pass_c_step iso_ymd ex_docs ex_vns ex_files ex_creditors [] ex_v4
      = [(''1004'', [''c.pdf''])]"
    by (simp add: pass_c_step_emit vn)
qed

lemma ex_pass_c_value:
  "pass_c_subscription iso_ymd ex_bank ex_docs ex_vns ex_files ex_creditors
     = [(''1004'', [''c.pdf''])]"
  by (simp add: pass_c_subscription_def ex_bank_def ex_pass_c_steps)

theorem skip_bad_voucher_witness:
  "iso_ymd (Date_iso ex_bad) = None \<and>
   pass_b_alias_date iso_ymd ([ex_v1] @ ex_bad # [ex_unknown, ex_v4]) ex_docs ex_vns ex_files
     ex_creditors = [(''1001'', [''a.pdf'']), (''1004'', [''c.pdf''])] \<and>
   pass_b_alias_date iso_ymd ([ex_v1] @ [ex_unknown, ex_v4]) ex_docs ex_vns ex_files
     ex_creditors = [(''1001'', [''a.pdf'']), (''1004'', [''c.pdf''])] \<and>
   pass_c_subscription iso_ymd ([ex_v1] @ ex_bad # [ex_unknown, ex_v4]) ex_docs ex_vns ex_files
     ex_creditors = [(''1004'', [''c.pdf''])] \<and>
   pass_c_subscription iso_ymd ([ex_v1] @ [ex_unknown, ex_v4]) ex_docs ex_vns ex_files
     ex_creditors = [(''1004'', [''c.pdf''])]"
proof -
  have h: "iso_ymd (Date_iso ex_bad) = None" by (simp add: ex_bad_def ex_dates)
  then have h': "iso_ymd (Date_iso ex_bad) = None \<or> lookup_creditor ex_creditors ex_bad = None"
    by simp
  note t = skip_bad_voucher [where parse = iso_ymd and xs = "[ex_v1]" and
      ys = "[ex_unknown, ex_v4]" and doc_records = ex_docs and unmatched_vouchers = ex_vns and
      unmatched_docs = ex_files, OF h']
  have b: "pass_b_alias_date iso_ymd ([ex_v1] @ ex_bad # [ex_unknown, ex_v4]) ex_docs ex_vns
      ex_files ex_creditors = [(''1001'', [''a.pdf'']), (''1004'', [''c.pdf''])]"
    using ex_pass_b_value by (simp add: ex_bank_def)
  have c: "pass_c_subscription iso_ymd ([ex_v1] @ ex_bad # [ex_unknown, ex_v4]) ex_docs ex_vns
      ex_files ex_creditors = [(''1004'', [''c.pdf''])]"
    using ex_pass_c_value by (simp add: ex_bank_def)
  from t b have b': "pass_b_alias_date iso_ymd ([ex_v1] @ [ex_unknown, ex_v4]) ex_docs ex_vns
      ex_files ex_creditors = [(''1001'', [''a.pdf'']), (''1004'', [''c.pdf''])]"
    by metis
  from t c have c': "pass_c_subscription iso_ymd ([ex_v1] @ [ex_unknown, ex_v4]) ex_docs ex_vns
      ex_files ex_creditors = [(''1004'', [''c.pdf''])]"
    by metis
  from h b b' c c' show ?thesis by blast
qed

section \<open>Pass C: results\<close>

lemma subscription_aliases_truthy:
  "a \<in> set (subscription_aliases cred) \<Longrightarrow> truthy (frequency a) \<and> truthy (start_date a)"
  by (simp add: subscription_aliases_def)

lemma pass_c_alias_appends_spec:
  assumes "truthy (frequency a)" and "truthy (start_date a)"
  shows "pass_c_alias_appends parse v_date doc_dates fname a =
           (if spec_pass_c_alias_ok parse v_date doc_dates a then [fname] else [])"
  using assms
  by (simp add: pass_c_alias_appends_def spec_pass_c_alias_ok_def Let_def list_ex_iff
      split: option.split list.split)

lemma set_concat_alias_appends:
  assumes "\<forall>a\<in>set subs. truthy (frequency a) \<and> truthy (start_date a)"
  shows "set (concat (map (pass_c_alias_appends parse v_date doc_dates fname) subs)) =
           (if \<exists>a\<in>set subs. spec_pass_c_alias_ok parse v_date doc_dates a then {fname} else {})"
  using assms
proof (induction subs)
  case Nil
  show ?case by simp
next
  case (Cons a subs)
  then have "pass_c_alias_appends parse v_date doc_dates fname a =
           (if spec_pass_c_alias_ok parse v_date doc_dates a then [fname] else [])"
    using pass_c_alias_appends_spec by simp
  then show ?case using Cons by auto
qed

lemma set_pass_c_doc_appends:
  assumes "\<forall>a\<in>set subs. truthy (frequency a) \<and> truthy (start_date a)"
  shows "set (pass_c_doc_appends parse unmatched_docs subs v_date v_amount d) =
           (if spec_pass_c_candidate parse unmatched_docs subs v_date v_amount d
            then {filename d} else {})"
proof -
  let ?pre = "filename d \<in> set unmatched_docs \<and> round2 v_amount \<in> round2 ` set (amounts d) \<and>
              spec_alias_match subs d"
  note c = set_concat_alias_appends [OF assms, of parse v_date "parse_dates parse (dates d)"
      "filename d"]
  show ?thesis
  proof (cases ?pre)
    case True
    then have "pass_c_doc_appends parse unmatched_docs subs v_date v_amount d
        = concat (map (pass_c_alias_appends parse v_date (parse_dates parse (dates d))
                          (filename d)) subs)"
      by (simp add: pass_c_doc_appends_def aliases_match_spec)
    then have "set (pass_c_doc_appends parse unmatched_docs subs v_date v_amount d)
        = set (concat (map (pass_c_alias_appends parse v_date (parse_dates parse (dates d))
                          (filename d)) subs))"
      by (simp only:)
    also note c
    also have "(if \<exists>a\<in>set subs. spec_pass_c_alias_ok parse v_date
                     (parse_dates parse (dates d)) a then {filename d} else {})
        = (if spec_pass_c_candidate parse unmatched_docs subs v_date v_amount d
            then {filename d} else {})"
      using True by (simp only: spec_pass_c_candidate_def simp_thms)
    finally show ?thesis .
  next
    case False
    then have "pass_c_doc_appends parse unmatched_docs subs v_date v_amount d = []"
      by (auto simp: pass_c_doc_appends_def aliases_match_spec)
    then show ?thesis using False by (auto simp: spec_pass_c_candidate_def)
  qed
qed

lemma set_pass_c_candidates:
  assumes "\<forall>a\<in>set subs. truthy (frequency a) \<and> truthy (start_date a)"
  shows "set (pass_c_candidates parse doc_records unmatched_docs subs v_date v_amount) =
           set (map filename
                 (filter (spec_pass_c_candidate parse unmatched_docs subs v_date v_amount)
                    doc_records))"
  unfolding pass_c_candidates_def
  by (induction doc_records) (auto simp: set_pass_c_doc_appends [OF assms])

lemma singleton_remdups:
  assumes "set xs = set ys"
  shows "(if length (sort (remdups xs)) = 1 then Some [sort (remdups xs) ! 0] else None) =
         (if length (remdups ys) = 1 then Some (remdups ys) else None)"
proof -
  have l: "length (sort (remdups xs)) = length (remdups ys)"
    using assms by (simp add: length_remdups_card_conv)
  show ?thesis
  proof (cases "length (remdups ys) = 1")
    case False
    then show ?thesis using l by simp
  next
    case True
    then obtain y where y: "remdups ys = [y]" by (cases "remdups ys") auto
    then have "set ys = {y}" by (metis set_remdups list.simps(15) empty_set)
    from True l obtain x where x: "sort (remdups xs) = [x]"
      by (cases "sort (remdups xs)") auto
    then have "set xs = {x}" by (metis set_sort set_remdups list.simps(15) empty_set)
    with \<open>set ys = {y}\<close> assms have "x = y" by auto
    then show ?thesis using x y by simp
  qed
qed

lemma pass_c_lookup:
  assumes "distinct (map VoucherNumber bank_records)" and "v \<in> set bank_records"
  shows "map_of (pass_c_subscription parse bank_records doc_records unmatched_vouchers
                   unmatched_docs creditors) (VoucherNumber v)
         = pass_c_emit parse doc_records unmatched_vouchers unmatched_docs creditors v"
  unfolding pass_c_subscription_def
  using foldl_emit_distinct [of "pass_c_step parse doc_records unmatched_vouchers unmatched_docs creditors"
      VoucherNumber "pass_c_emit parse doc_records unmatched_vouchers unmatched_docs creditors"
      v bank_records "[]", OF pass_c_step_emit] assms
  by simp

text \<open>
  Claim C5, as the code has it. For a voucher that Pass C handles (unmatched, creditor in
  the catalog with at least one alias carrying a frequency and a start date, date parses;
  voucher numbers are unique), a document is a candidate iff it is still unmatched, its
  amounts contain the voucher's amount at cent precision, some vendor line matches some
  subscription alias, and for some subscription alias whose start date parses either the
  document has no date (whatever the frequency) or its closest date to the voucher date is
  at most 7 days from some occurrence of that alias's schedule. The match is written
  exactly when the de-duplicated candidate list has one member, and it is that document.
\<close>

theorem pass_c_rule:
  assumes "distinct (map VoucherNumber bank_records)"
    and "v \<in> set bank_records"
    and "VoucherNumber v \<in> set unmatched_vouchers"
    and "lookup_creditor creditors v = Some cred"
    and "subscription_aliases cred \<noteq> []"
    and "parse (Date_iso v) = Some v_date"
  shows "map_of (pass_c_subscription parse bank_records doc_records unmatched_vouchers
                   unmatched_docs creditors) (VoucherNumber v)
         = (let candidates = remdups (map filename
                  (filter (spec_pass_c_candidate parse unmatched_docs
                             (subscription_aliases cred) v_date (Amount v)) doc_records))
            in if length candidates = 1 then Some candidates else None)"
proof -
  have t: "\<forall>a\<in>set (subscription_aliases cred). truthy (frequency a) \<and> truthy (start_date a)"
    using subscription_aliases_truthy by blast
  have "pass_c_emit parse doc_records unmatched_vouchers unmatched_docs creditors v
      = (let u = sort (remdups (pass_c_candidates parse doc_records unmatched_docs
                                  (subscription_aliases cred) v_date (Amount v)))
         in if length u = 1 then Some [u ! 0] else None)"
    using assms(3,4,5,6) by (simp add: pass_c_emit_def)
  also have "\<dots> = (let candidates = remdups (map filename
                  (filter (spec_pass_c_candidate parse unmatched_docs
                             (subscription_aliases cred) v_date (Amount v)) doc_records))
            in if length candidates = 1 then Some candidates else None)"
    unfolding Let_def by (rule singleton_remdups) (rule set_pass_c_candidates [OF t])
  finally show ?thesis using pass_c_lookup [OF assms(1,2)] by simp
qed


text \<open>
  Scenario 3 of the specification: monthly from 2024-01-05, voucher of 2024-04-06 for 99.00,
  document dated 2024-04-03, one day from the occurrence 2024-04-04 of the 30-day schedule.
\<close>

theorem pass_c_rule_witness:
  "distinct (map VoucherNumber ex_bank) \<and> ex_v4 \<in> set ex_bank \<and>
   VoucherNumber ex_v4 \<in> set ex_vns \<and>
   lookup_creditor ex_creditors ex_v4 = Some ex_gym \<and>
   subscription_aliases ex_gym \<noteq> [] \<and>
   iso_ymd (Date_iso ex_v4) = Some 738982 \<and>
   map_of (pass_c_subscription iso_ymd ex_bank ex_docs ex_vns ex_files ex_creditors) ''1004''
     = Some [''c.pdf''] \<and>
   (let candidates = remdups (map filename
            (filter (spec_pass_c_candidate iso_ymd ex_files (subscription_aliases ex_gym)
                       738982 (Amount ex_v4)) ex_docs))
    in if length candidates = 1 then Some candidates else None) = Some [''c.pdf'']"
proof -
  have h1: "distinct (map VoucherNumber ex_bank)" by (simp add: ex_data)
  have h2: "ex_v4 \<in> set ex_bank" by (simp add: ex_bank_def)
  have h3: "VoucherNumber ex_v4 \<in> set ex_vns" by (simp add: ex_v4_def ex_vns_def)
  have h4: "lookup_creditor ex_creditors ex_v4 = Some ex_gym" by (rule ex_lookup)
  have h5: "subscription_aliases ex_gym \<noteq> []"
    by (simp add: subscription_aliases_def ex_gym_def truthy_def)
  have h6: "iso_ymd (Date_iso ex_v4) = Some 738982" by (simp add: ex_v4_def ex_dates)
  have vn: "VoucherNumber ex_v4 = ''1004''" by (simp add: ex_v4_def)
  have l: "map_of (pass_c_subscription iso_ymd ex_bank ex_docs ex_vns ex_files ex_creditors)
      ''1004'' = Some [''c.pdf'']"
    by (simp add: ex_pass_c_value)
  note t = pass_c_rule [where parse = iso_ymd and doc_records = ex_docs and
      unmatched_docs = ex_files, OF h1 h2 h3 h4 h5 h6]
  have r: "(let candidates = remdups (map filename
            (filter (spec_pass_c_candidate iso_ymd ex_files (subscription_aliases ex_gym)
                       738982 (Amount ex_v4)) ex_docs))
    in if length candidates = 1 then Some candidates else None) = Some [''c.pdf'']"
    using t l unfolding vn by (simp only:)
  from h1 h2 h3 h4 h5 h6 l r show ?thesis by blast
qed

text \<open>
  Claim C5, as the specification words it, fails in its case (b): a document without any
  date is committed by Pass C for a monthly alias; no bimonthly test is made.
\<close>

theorem pass_c_undated_counterexample:
  "pass_c_subscription iso_ymd [ex_v4] [ex_undated] [''1004''] [''u.pdf''] ex_creditors
     = [(''1004'', [''u.pdf''])] \<and>
   dates ex_undated = [] \<and>
   map frequency (subscription_aliases ex_gym) = [Some ''monthly'']"
proof -
  have subs: "subscription_aliases ex_gym = aliases ex_gym"
    by (simp add: subscription_aliases_def ex_gym_def truthy_def)
  have al: "aliases_match (aliases ex_gym) (vendors ex_undated)"
    by (simp add: ex_gym_def ex_undated_def alias_hit_def startswith_def endswith_def)
  have ap: "pass_c_alias_appends iso_ymd 738982 [] ''u.pdf'' (hd (aliases ex_gym)) = [''u.pdf'']"
    by (simp add: pass_c_alias_appends_def ex_gym_def truthy_def ex_dates)
  have pd: "parse_dates iso_ymd (dates ex_undated) = []"
    by (simp add: parse_dates_def List.map_filter_def ex_undated_def)
  have d: "pass_c_doc_appends iso_ymd [''u.pdf''] (aliases ex_gym) 738982 99 ex_undated
      = [''u.pdf'']"
    unfolding pass_c_doc_appends_def pd using al ap
    by (simp add: ex_undated_def ex_round2 ex_gym_def)
  have c: "pass_c_candidates iso_ymd [ex_undated] [''u.pdf''] (subscription_aliases ex_gym)
      738982 99 = [''u.pdf'']"
    unfolding subs pass_c_candidates_def using d by simp
  have vn: "VoucherNumber ex_v4 = ''1004''" "Date_iso ex_v4 = ''2024-04-06''" "Amount ex_v4 = 99"
    by (simp_all add: ex_v4_def)
  have g: "subscription_aliases ex_gym \<noteq> []" using subs by (simp add: ex_gym_def)
  have "pass_c_emit iso_ymd [ex_undated] [''1004''] [''u.pdf''] ex_creditors ex_v4
      = Some [''u.pdf'']"
    unfolding pass_c_emit_def ex_lookup vn using g by (simp add: ex_dates c)
  then have "pass_c_subscription iso_ymd [ex_v4] [ex_undated] [''1004''] [''u.pdf'']
      ex_creditors = [(''1004'', [''u.pdf''])]"
    by (simp add: pass_c_subscription_def pass_c_step_emit vn)
  moreover have "dates ex_undated = []" by (simp add: ex_undated_def)
  moreover have "map frequency (subscription_aliases ex_gym) = [Some ''monthly'']"
    unfolding subs by (simp add: ex_gym_def)
  ultimately show ?thesis by blast
qed

section \<open>Candidate scorer: results\<close>

lemma amount_points_spec: "amount_points v_amount d = spec_amount_bonus v_amount d"
  by (simp add: amount_points_def spec_amount_bonus_def)

lemma alias_bonus_lines_eq:
  "alias_bonus_lines a vendor_lines b =
     (if \<exists>line\<in>set vendor_lines. alias_hit (prefix a) (postfix a) line then 30 else b)"
  by (induction vendor_lines) auto

lemma alias_bonus_loop_eq:
  "alias_bonus_loop als vendor_lines 0 =
     (if \<exists>a\<in>set als. \<exists>line\<in>set vendor_lines. alias_hit (prefix a) (postfix a) line
      then 30 else 0)"
  by (induction als) (auto simp: alias_bonus_lines_eq Let_def)

lemma alias_points_spec: "alias_points creditors v d = spec_alias_bonus creditors v d"
proof -
  have "\<And>als. (\<exists>a\<in>set als. \<exists>line\<in>set (vendors d). alias_hit (prefix a) (postfix a) line)
      \<longleftrightarrow> spec_alias_match als d"
    by (auto simp: spec_alias_match_def alias_hit_def)
  then show ?thesis
    by (simp add: alias_points_def spec_alias_bonus_def alias_bonus_loop_eq split: option.split)
qed

lemma spec_closest_within_Nil: "\<not> spec_closest_within n r t []"
  by (simp add: spec_closest_within_def)

lemma date_points_spec: "date_points v_date ds = spec_date_bonus v_date ds"
proof (cases ds)
  case Nil
  then show ?thesis by (simp add: date_points_def spec_date_bonus_def spec_closest_within_Nil)
next
  case (Cons d ds')
  then show ?thesis
    by (simp add: date_points_def spec_date_bonus_def Let_def closest_within_spec)
qed

lemma doc_score_spec: "doc_score parse creditors v v_date d = spec_score parse creditors v v_date d"
  by (simp add: doc_score_def spec_score_def amount_points_spec alias_points_spec
      date_points_spec)

lemma spec_score_le: "spec_score parse creditors v v_date d \<le> 100"
  by (simp add: spec_score_def spec_amount_bonus_def spec_alias_bonus_def spec_date_bonus_def
      split: option.split)

lemma sort_rows_sorted: "sorted_wrt spec_row_before (sort_rows rows)"
proof -
  have "sorted (map (\<lambda>r. (- r_score r, r_file r)) (sort_rows rows))"
    unfolding sort_rows_def by (rule sorted_sort_key)
  then have "sorted_wrt (\<lambda>r r'. (- r_score r, r_file r) \<le> (- r_score r', r_file r'))
      (sort_rows rows)"
    by (simp add: sorted_map)
  moreover have "\<And>r r'. (- r_score r, r_file r) \<le> (- r_score r', r_file r')
      \<Longrightarrow> spec_row_before r r'"
    by (auto simp: spec_row_before_def less_eq_prod_def)
  ultimately show ?thesis by (rule sorted_wrt_mono_rel [rotated]) auto
qed

lemma set_sort_rows: "set (sort_rows rows) = set rows"
  by (simp add: sort_rows_def)

text \<open>
  Claim C6. When \<^verbatim>\<open>refresh_table\<close> scores the documents for the current voucher, every row
  of the table carries the score of a document of the collection, which is the sum of the
  amount bonus (50), the alias bonus (30, once, however many aliases or lines match) and the
  date bonus (20, 10, 5 or 0 by the distance of the closest date; 0 without dates), and so
  is at most 100; the rows are in descending order of score, ties in ascending order of file
  name; and the match set and the unmatched lists are left as they were.
\<close>

theorem refresh_table_scores:
  assumes "self_unmatched_vouchers self \<noteq> []"
    and "current_index self < length (self_unmatched_vouchers self)"
    and "voucher_map self (self_unmatched_vouchers self ! current_index self) = Some v"
    and "parse (Date_iso v) = Some v_date"
  shows "(\<forall>r\<in>set (table_data (refresh_table parse self)).
            r_score r \<le> 100 \<and>
            (\<exists>d\<in>set (doc_records_of self). r_file r = filename d \<and>
               r_score r = spec_score parse (creditors_of self) v v_date d)) \<and>
         sorted_wrt spec_row_before (table_data (refresh_table parse self)) \<and>
         matchinfo (refresh_table parse self) = matchinfo self \<and>
         self_unmatched_vouchers (refresh_table parse self) = self_unmatched_vouchers self \<and>
         self_unmatched_docs (refresh_table parse self) = self_unmatched_docs self"
proof -
  have t: "refresh_table parse self
      = self\<lparr> table_data := sort_rows (score_rows parse self v v_date) \<rparr>"
    using assms by (simp add: refresh_table_def)
  have a: "\<forall>r\<in>set (score_rows parse self v v_date).
            r_score r \<le> 100 \<and>
            (\<exists>d\<in>set (doc_records_of self). r_file r = filename d \<and>
               r_score r = spec_score parse (creditors_of self) v v_date d)"
    by (auto simp: score_rows_def doc_score_spec spec_score_le)
  show ?thesis unfolding t using a by (simp add: set_sort_rows sort_rows_sorted)
qed


lemma ex_scores:
  "doc_score iso_ymd ex_creditors ex_v1 738955 ex_d1 = 100"
  "doc_score iso_ymd ex_creditors ex_v1 738955 ex_d2 = 60"
  "doc_score iso_ymd ex_creditors ex_v1 738955 ex_d3 = 5"
proof -
  have am: "Amount ex_v1 = 500" by (simp add: ex_v1_def)
  have a: "amount_points 500 ex_d1 = 50" "amount_points 500 ex_d2 = 50"
    "amount_points 500 ex_d3 = 0"
    by (simp_all add: amount_points_def ex_d1_def ex_d2_def ex_d3_def ex_round2)
  have l: "alias_points ex_creditors ex_v1 ex_d1 = 30" "alias_points ex_creditors ex_v1 ex_d2 = 0"
    "alias_points ex_creditors ex_v1 ex_d3 = 0"
    unfolding alias_points_def ex_lookup
    by (simp_all add: ex_netflix_def ex_d1_def ex_d2_def ex_d3_def alias_hit_def startswith_def)
  have d: "date_points 738955 [738957] = 20" "date_points 738955 [738946] = 10"
    "date_points 738955 [738979] = 5"
    by (simp_all add: date_points_def closest_def day_distance_def)
  show "doc_score iso_ymd ex_creditors ex_v1 738955 ex_d1 = 100"
    "doc_score iso_ymd ex_creditors ex_v1 738955 ex_d2 = 60"
    "doc_score iso_ymd ex_creditors ex_v1 738955 ex_d3 = 5"
    unfolding doc_score_def ex_parse_dates am by (simp_all add: a l d)
qed

lemma ex_table:
  "table_data (refresh_table iso_ymd ex_gui) =
     [\<lparr> r_file = ''a.pdf'', r_score = 100 \<rparr>, \<lparr> r_file = ''b.pdf'', r_score = 60 \<rparr>,
      \<lparr> r_file = ''c.pdf'', r_score = 5 \<rparr>]"
proof -
  have s: "shown iso_ymd ex_gui ex_v1 738955 ex_d1" "shown iso_ymd ex_gui ex_v1 738955 ex_d2"
    "shown iso_ymd ex_gui ex_v1 738955 ex_d3"
    by (simp_all add: shown_def ex_gui_def ex_scores matched_docs_of_def)
  have r: "score_rows iso_ymd ex_gui ex_v1 738955 =
     [\<lparr> r_file = ''c.pdf'', r_score = 5 \<rparr>, \<lparr> r_file = ''b.pdf'', r_score = 60 \<rparr>,
      \<lparr> r_file = ''a.pdf'', r_score = 100 \<rparr>]"
    unfolding score_rows_def using s
    by (simp add: ex_gui_def ex_scores) (simp add: ex_d1_def ex_d2_def ex_d3_def)
  have "refresh_table iso_ymd ex_gui
      = ex_gui\<lparr> table_data := sort_rows (score_rows iso_ymd ex_gui ex_v1 738955) \<rparr>"
    by (simp add: refresh_table_def ex_gui_def ex_v1_def ex_dates)
  then show ?thesis unfolding r by (simp add: sort_rows_def)
qed

theorem refresh_table_scores_witness:
  "self_unmatched_vouchers ex_gui \<noteq> [] \<and>
   current_index ex_gui < length (self_unmatched_vouchers ex_gui) \<and>
   voucher_map ex_gui (self_unmatched_vouchers ex_gui ! current_index ex_gui) = Some ex_v1 \<and>
   iso_ymd (Date_iso ex_v1) = Some 738955 \<and>
   table_data (refresh_table iso_ymd ex_gui) =
     [\<lparr> r_file = ''a.pdf'', r_score = 100 \<rparr>, \<lparr> r_file = ''b.pdf'', r_score = 60 \<rparr>,
      \<lparr> r_file = ''c.pdf'', r_score = 5 \<rparr>] \<and>
   spec_score iso_ymd (creditors_of ex_gui) ex_v1 738955 ex_d1 = 100 \<and>
   sorted_wrt spec_row_before (table_data (refresh_table iso_ymd ex_gui)) \<and>
   matchinfo (refresh_table iso_ymd ex_gui) = matchinfo ex_gui"
proof -
  have h1: "self_unmatched_vouchers ex_gui \<noteq> []" by (simp add: ex_gui_def)
  have h2: "current_index ex_gui < length (self_unmatched_vouchers ex_gui)"
    by (simp add: ex_gui_def)
  have h3: "voucher_map ex_gui (self_unmatched_vouchers ex_gui ! current_index ex_gui)
      = Some ex_v1"
    by (simp add: ex_gui_def)
  have h4: "iso_ymd (Date_iso ex_v1) = Some 738955" by (simp add: ex_v1_def ex_dates)
  note t = refresh_table_scores [where parse = iso_ymd, OF h1 h2 h3 h4]
  have s: "sorted_wrt spec_row_before (table_data (refresh_table iso_ymd ex_gui))"
    using t by blast
  have m: "matchinfo (refresh_table iso_ymd ex_gui) = matchinfo ex_gui"
    using t by blast
  have sc: "spec_score iso_ymd (creditors_of ex_gui) ex_v1 738955 ex_d1 = 100"
    using ex_scores(1) by (simp add: doc_score_spec ex_gui_def)
  from h1 h2 h3 h4 ex_table sc s m show ?thesis by blast
qed

section \<open>Pass A: results\<close>

lemma get_list_setdefault_append:
  "get_list (setdefault_append m key f) k = get_list m k @ (if key = k then [f] else [])"
  by (simp add: get_list_def setdefault_append_def)

lemma get_list_index_amounts:
  "get_list (foldl (\<lambda>m amt. setdefault_append m (round2 amt) f) m as) k =
     get_list m k @ map (\<lambda>_. f) (filter (\<lambda>a. round2 a = k) as)"
  by (induction as arbitrary: m) (simp_all add: get_list_setdefault_append)

lemma get_list_index_docs:
  "get_list (foldl index_doc m docs) k =
     get_list m k @
     concat (map (\<lambda>d. map (\<lambda>_. filename d) (filter (\<lambda>a. round2 a = k) (amounts d))) docs)"
  by (induction docs arbitrary: m) (simp_all add: index_doc_def get_list_index_amounts)

text \<open>The index entry of an amount lists a document once for every amount of the document
  that rounds to it.\<close>

lemma get_list_build:
  "get_list (build_doc_by_amount docs) k =
     concat (map (\<lambda>d. map (\<lambda>_. filename d) (filter (\<lambda>a. round2 a = k) (amounts d))) docs)"
proof -
  have "get_list Map.empty k = ([] :: string list)" by (simp add: get_list_def)
  then show ?thesis unfolding build_doc_by_amount_def get_list_index_docs by simp
qed

lemma pass_a_step_emit:
  "pass_a_step doc_by_amount unmatched_vouchers a x =
     (case pass_a_emit doc_by_amount unmatched_vouchers x of
        None \<Rightarrow> a | Some c \<Rightarrow> AList.update (VoucherNumber x) c a)"
  by (simp add: pass_a_step_def pass_a_emit_def Let_def)

lemma pass_a_entries:
  assumes "(k, cs) \<in> set (pass_a_exact_amount bank_records doc_records unmatched_vouchers
                            unmatched_docs)"
  shows "\<exists>v\<in>set bank_records. VoucherNumber v = k \<and>
           pass_a_emit (build_doc_by_amount doc_records) unmatched_vouchers v = Some cs"
  using foldl_emit_entries [of "pass_a_step (build_doc_by_amount doc_records) unmatched_vouchers"
        VoucherNumber "pass_a_emit (build_doc_by_amount doc_records) unmatched_vouchers"
        k cs "[]" bank_records, OF pass_a_step_emit] assms
  unfolding pass_a_exact_amount_def by simp

text \<open>
  The direction of the singleton rule that the code keeps: a match written by Pass A is for
  an unmatched voucher, and it is the single entry of the amount index for the voucher's
  amount, so exactly one document record lists that amount, and lists it once.
\<close>

lemma pass_a_sound:
  assumes "(k, cs) \<in> set (pass_a_exact_amount bank_records doc_records unmatched_vouchers
                            unmatched_docs)"
  shows "k \<in> set unmatched_vouchers \<and> length cs = 1 \<and>
         (\<exists>v\<in>set bank_records. VoucherNumber v = k \<and>
            cs = concat (map (\<lambda>d. map (\<lambda>_. filename d)
                   (filter (\<lambda>a. round2 a = round2 (Amount v)) (amounts d))) doc_records))"
proof -
  from pass_a_entries [OF assms] obtain v where v: "v \<in> set bank_records" "VoucherNumber v = k"
    "pass_a_emit (build_doc_by_amount doc_records) unmatched_vouchers v = Some cs" by blast
  from v(3) have "VoucherNumber v \<in> set unmatched_vouchers" "length cs = 1"
    "cs = get_list (build_doc_by_amount doc_records) (round2 (Amount v))"
    by (auto simp: pass_a_emit_def split: if_splits)
  then show ?thesis using v(1,2) by (auto simp: get_list_build)
qed

text \<open>
  Claim C1 fails on the code. The document \<^verbatim>\<open>d.pdf\<close> lists the amount 99.00 twice, as a
  total repeated on an invoice is extracted twice by \<^verbatim>\<open>find_amounts\<close>. It is the only
  document with the voucher's amount, but the index entry for 99.00 names it twice, the
  length test fails, and Pass A writes no match.
\<close>

theorem pass_a_duplicate_amount:
  "pass_a_exact_amount [ex_v4] [ex_dup] [''1004''] [''d.pdf''] = [] \<and>
   get_list (build_doc_by_amount [ex_dup]) (round2 (Amount ex_v4)) = [''d.pdf'', ''d.pdf''] \<and>
   filter (\<lambda>d. round2 (Amount ex_v4) \<in> round2 ` set (amounts d)) [ex_dup] = [ex_dup]"
proof -
  have g: "get_list (build_doc_by_amount [ex_dup]) (round2 (Amount ex_v4))
      = [''d.pdf'', ''d.pdf'']"
    by (simp add: get_list_build ex_dup_def ex_v4_def)
  then have "pass_a_emit (build_doc_by_amount [ex_dup]) [''1004''] ex_v4 = None"
    by (simp add: pass_a_emit_def)
  then have "pass_a_exact_amount [ex_v4] [ex_dup] [''1004''] [''d.pdf''] = []"
    by (simp add: pass_a_exact_amount_def pass_a_step_emit)
  moreover have "filter (\<lambda>d. round2 (Amount ex_v4) \<in> round2 ` set (amounts d)) [ex_dup]
      = [ex_dup]"
    by (simp add: ex_dup_def ex_v4_def)
  ultimately show ?thesis using g by blast
qed

section \<open>The cascade: results\<close>

lemma update_fresh: "k \<notin> fst ` set al \<Longrightarrow> AList.update k v al = al @ [(k, v)]"
  by (induction al) auto

lemma foldl_emit_keys:
  assumes step: "\<And>a x. step a x =
    (case emit x of None \<Rightarrow> a | Some c \<Rightarrow> AList.update (key x) c a)"
  shows "fst ` set (foldl step acc vs) =
           fst ` set acc \<union> key ` {v \<in> set vs. emit v \<noteq> None}"
proof (induction vs rule: rev_induct)
  case Nil
  show ?case by simp
next
  case (snoc v vs)
  show ?case
  proof (cases "emit v")
    case None
    then have "foldl step acc (vs @ [v]) = foldl step acc vs" by (simp add: step)
    then show ?thesis using snoc None by auto
  next
    case (Some c)
    then have "foldl step acc (vs @ [v]) = AList.update (key v) c (foldl step acc vs)"
      by (simp add: step)
    then have "fst ` set (foldl step acc (vs @ [v]))
        = insert (key v) (fst ` set (foldl step acc vs))"
      by (simp add: keys_update)
    then show ?thesis using snoc Some by auto
  qed
qed

lemma foldl_emit_none:
  assumes step: "\<And>a x. step a x =
    (case emit x of None \<Rightarrow> a | Some c \<Rightarrow> AList.update (key x) c a)"
    and none: "\<forall>v\<in>set vs. emit v = None"
  shows "foldl step acc vs = acc"
  using none by (induction vs arbitrary: acc) (simp_all add: step)

subsection \<open>Removing committed documents\<close>

lemma set_remove_all:
  "distinct u \<Longrightarrow> set (foldl (\<lambda>u dd. remove1 dd u) u dl) = set u - set dl \<and>
                  distinct (foldl (\<lambda>u dd. remove1 dd u) u dl)"
proof (induction dl arbitrary: u)
  case Nil
  then show ?case by simp
next
  case (Cons d dl)
  have d: "distinct (remove1 d u)" using Cons.prems by simp
  have "set (remove1 d u) = set u - {d}" using Cons.prems by simp
  with Cons.IH [OF d] show ?case by auto
qed

subsection \<open>The invariant of the unmatched lists\<close>

lemma matched_docs_of_append:
  "matched_docs_of (m @ n) = matched_docs_of m @ matched_docs_of n"
  by (simp add: matched_docs_of_def)

lemma commit_match_fresh:
  assumes "fst e \<notin> fst ` set (matchinfo self)"
  shows "matchinfo (commit_match self e) = matchinfo self @ [e]"
    and "self_unmatched_vouchers (commit_match self e)
           = remove1 (fst e) (self_unmatched_vouchers self)"
    and "self_unmatched_docs (commit_match self e)
           = foldl (\<lambda>u dd. remove1 dd u) (self_unmatched_docs self) (snd e)"
  using assms by (cases e; simp add: commit_match_def update_fresh)+

lemma merge_pass_fresh:
  assumes "distinct (map fst new)"
    and "fst ` set new \<inter> fst ` set (matchinfo self) = {}"
    and "distinct (self_unmatched_vouchers self)"
    and "distinct (self_unmatched_docs self)"
  shows "matchinfo (merge_pass self new) = matchinfo self @ new \<and>
         set (self_unmatched_vouchers (merge_pass self new))
           = set (self_unmatched_vouchers self) - fst ` set new \<and>
         set (self_unmatched_docs (merge_pass self new))
           = set (self_unmatched_docs self) - set (matched_docs_of new) \<and>
         distinct (self_unmatched_vouchers (merge_pass self new)) \<and>
         distinct (self_unmatched_docs (merge_pass self new))"
  using assms
proof (induction new rule: rev_induct)
  case Nil
  then show ?case by (simp add: merge_pass_def matched_docs_of_def)
next
  case (snoc e new)
  let ?s = "merge_pass self new"
  have d: "distinct (map fst new)" and ne: "fst e \<notin> fst ` set new"
    using snoc.prems(1) by auto
  have dj: "fst ` set new \<inter> fst ` set (matchinfo self) = {}" using snoc.prems(2) by auto
  note ih = snoc.IH [OF d dj snoc.prems(3,4)]
  have fresh: "fst e \<notin> fst ` set (matchinfo ?s)"
    using ih ne snoc.prems(2) by auto
  have m: "merge_pass self (new @ [e]) = commit_match ?s e" by (simp add: merge_pass_def)
  note c = commit_match_fresh [OF fresh]
  have dv: "distinct (self_unmatched_vouchers ?s)" and dd: "distinct (self_unmatched_docs ?s)"
    using ih by simp_all
  note r = set_remove_all [OF dd, of "snd e"]
  show ?case unfolding m c
    using ih dv r by (auto simp: matched_docs_of_def)
qed

subsection \<open>What a pass can write\<close>

lemma pass_a_sub:
  assumes "(k, cs) \<in> set (pass_a_exact_amount bank_records doc_records unmatched_vouchers
                            unmatched_docs)"
  shows "k \<in> set unmatched_vouchers"
  using pass_a_sound [OF assms] by simp

lemma pass_b_sub:
  assumes "(k, cs) \<in> set (pass_b_alias_date parse bank_records doc_records unmatched_vouchers
                            unmatched_docs creditors)"
  shows "k \<in> set unmatched_vouchers \<and> set cs \<subseteq> set unmatched_docs"
proof -
  from pass_b_entries [OF assms] obtain v where v: "VoucherNumber v = k"
    "pass_b_emit parse doc_records unmatched_vouchers unmatched_docs creditors v = Some cs"
    by blast
  from v(2) have k: "VoucherNumber v \<in> set unmatched_vouchers"
    by (auto simp: pass_b_emit_def split: if_splits)
  from v(2) obtain al vd where "cs = pass_b_candidates parse doc_records unmatched_docs al vd"
    by (auto simp: pass_b_emit_def Let_def split: if_splits option.splits)
  then have "set cs \<subseteq> set unmatched_docs"
    by (auto simp: pass_b_candidates_def pass_b_candidate_def)
  with k v(1) show ?thesis by simp
qed

lemma set_pass_c_alias_appends:
  "set (pass_c_alias_appends parse v_date doc_dates fname a) \<subseteq> {fname}"
  by (cases doc_dates)
     (auto simp: pass_c_alias_appends_def Let_def split: option.splits if_splits)

lemma set_pass_c_doc_appends_sub:
  "set (pass_c_doc_appends parse unmatched_docs subs v_date v_amount d) \<subseteq> set unmatched_docs"
proof (cases "filename d \<in> set unmatched_docs")
  case False
  then show ?thesis by (simp add: pass_c_doc_appends_def)
next
  case True
  have "set (concat (map (pass_c_alias_appends parse v_date (parse_dates parse (dates d))
                          (filename d)) subs)) \<subseteq> {filename d}"
    using set_pass_c_alias_appends by fastforce
  then show ?thesis using True by (auto simp: pass_c_doc_appends_def)
qed

lemma set_pass_c_candidates_sub:
  "set (pass_c_candidates parse doc_records unmatched_docs subs v_date v_amount)
     \<subseteq> set unmatched_docs"
  unfolding pass_c_candidates_def using set_pass_c_doc_appends_sub by fastforce

lemma pass_c_sub:
  assumes "(k, cs) \<in> set (pass_c_subscription parse bank_records doc_records unmatched_vouchers
                            unmatched_docs creditors)"
  shows "k \<in> set unmatched_vouchers \<and> set cs \<subseteq> set unmatched_docs"
proof -
  from pass_c_entries [OF assms] obtain v where v: "VoucherNumber v = k"
    "pass_c_emit parse doc_records unmatched_vouchers unmatched_docs creditors v = Some cs"
    by blast
  from v(2) have k: "VoucherNumber v \<in> set unmatched_vouchers"
    by (auto simp: pass_c_emit_def split: if_splits)
  from v(2) obtain subs vd va where u: "cs = [sort (remdups (pass_c_candidates parse doc_records
      unmatched_docs subs vd va)) ! 0]"
    "length (sort (remdups (pass_c_candidates parse doc_records unmatched_docs subs vd va))) = 1"
    by (auto simp: pass_c_emit_def Let_def split: if_splits option.splits)
  let ?u = "sort (remdups (pass_c_candidates parse doc_records unmatched_docs subs vd va))"
  have "?u ! 0 \<in> set ?u" using u(2) by (metis nth_mem zero_less_one)
  then have "?u ! 0 \<in> set (pass_c_candidates parse doc_records unmatched_docs subs vd va)"
    by simp
  then have "set cs \<subseteq> set unmatched_docs" using u(1) set_pass_c_candidates_sub by fastforce
  with k v(1) show ?thesis by simp
qed

lemma pass_a_distinct:
  "distinct (map fst (pass_a_exact_amount bank_records doc_records unmatched_vouchers
                        unmatched_docs))"
  unfolding pass_a_exact_amount_def
  using foldl_emit_distinct_keys [of "pass_a_step (build_doc_by_amount doc_records) unmatched_vouchers"
      VoucherNumber "pass_a_emit (build_doc_by_amount doc_records) unmatched_vouchers" "[]"
      bank_records, OF pass_a_step_emit]
  by simp

lemma pass_b_distinct:
  "distinct (map fst (pass_b_alias_date parse bank_records doc_records unmatched_vouchers
                        unmatched_docs creditors))"
  unfolding pass_b_alias_date_def
  using foldl_emit_distinct_keys [of "pass_b_step parse doc_records unmatched_vouchers unmatched_docs creditors"
      VoucherNumber "pass_b_emit parse doc_records unmatched_vouchers unmatched_docs creditors" "[]"
      bank_records, OF pass_b_step_emit]
  by simp

lemma pass_c_distinct:
  "distinct (map fst (pass_c_subscription parse bank_records doc_records unmatched_vouchers
                        unmatched_docs creditors))"
  unfolding pass_c_subscription_def
  using foldl_emit_distinct_keys [of "pass_c_step parse doc_records unmatched_vouchers unmatched_docs creditors"
      VoucherNumber "pass_c_emit parse doc_records unmatched_vouchers unmatched_docs creditors" "[]"
      bank_records, OF pass_c_step_emit]
  by simp

lemma matched_docs_sub:
  assumes "\<And>k cs. (k, cs) \<in> set new \<Longrightarrow> set cs \<subseteq> D"
  shows "set (matched_docs_of new) \<subseteq> D"
  using assms by (fastforce simp: matched_docs_of_def)

lemma keys_sub:
  assumes "\<And>k cs. (k, cs) \<in> set new \<Longrightarrow> k \<in> U"
  shows "fst ` set new \<subseteq> U"
  using assms by fastforce

subsection \<open>The three merges in closed form\<close>

lemma load_state_facts:
  "matchinfo (load_state bank_records doc_records m) = m"
  "distinct (self_unmatched_vouchers (load_state bank_records doc_records m))"
  "distinct (self_unmatched_docs (load_state bank_records doc_records m))"
  "set (self_unmatched_vouchers (load_state bank_records doc_records m))
     = VoucherNumber ` set bank_records - fst ` set m"
  "set (self_unmatched_docs (load_state bank_records doc_records m))
     = filename ` set doc_records - set (matched_docs_of m)"
  by (auto simp: load_state_def)

lemma merge_step:
  assumes dv: "distinct (self_unmatched_vouchers self)"
    and dd: "distinct (self_unmatched_docs self)"
    and iv: "set (self_unmatched_vouchers self) \<inter> fst ` set (matchinfo self) = {}"
    and dn: "distinct (map fst new)"
    and kn: "fst ` set new \<subseteq> set (self_unmatched_vouchers self)"
  shows "matchinfo (merge_pass self new) = matchinfo self @ new"
    and "distinct (self_unmatched_vouchers (merge_pass self new))"
    and "distinct (self_unmatched_docs (merge_pass self new))"
    and "set (self_unmatched_vouchers (merge_pass self new)) \<inter>
           fst ` set (matchinfo (merge_pass self new)) = {}"
    and "set (self_unmatched_vouchers (merge_pass self new))
           \<subseteq> set (self_unmatched_vouchers self)"
    and "set (self_unmatched_docs (merge_pass self new))
           = set (self_unmatched_docs self) - set (matched_docs_of new)"
proof -
  have dj: "fst ` set new \<inter> fst ` set (matchinfo self) = {}" using kn iv by blast
  note f = merge_pass_fresh [OF dn dj dv dd]
  show "matchinfo (merge_pass self new) = matchinfo self @ new" using f by simp
  show "distinct (self_unmatched_vouchers (merge_pass self new))" using f by simp
  show "distinct (self_unmatched_docs (merge_pass self new))" using f by simp
  have m: "matchinfo (merge_pass self new) = matchinfo self @ new" using f by simp
  have u: "set (self_unmatched_vouchers (merge_pass self new))
           = set (self_unmatched_vouchers self) - fst ` set new" using f by simp
  show "set (self_unmatched_vouchers (merge_pass self new)) \<inter>
           fst ` set (matchinfo (merge_pass self new)) = {}"
    unfolding m u using iv by auto
  show "set (self_unmatched_vouchers (merge_pass self new))
           \<subseteq> set (self_unmatched_vouchers self)" unfolding u by blast
  show "set (self_unmatched_docs (merge_pass self new))
           = set (self_unmatched_docs self) - set (matched_docs_of new)" using f by simp
qed

lemma new_a_keys:
  "fst ` set (new_a_of bank_records doc_records self) \<subseteq> set (self_unmatched_vouchers self)"
  unfolding new_a_of_def by (rule keys_sub) (rule pass_a_sub)

lemma new_b_keys:
  "fst ` set (new_b_of parse bank_records doc_records creditors self)
     \<subseteq> set (self_unmatched_vouchers self)"
  unfolding new_b_of_def using pass_b_sub by (intro keys_sub) blast

lemma new_c_keys:
  "fst ` set (new_c_of parse bank_records doc_records creditors self)
     \<subseteq> set (self_unmatched_vouchers self)"
  unfolding new_c_of_def using pass_c_sub by (intro keys_sub) blast

lemma new_b_docs:
  "set (matched_docs_of (new_b_of parse bank_records doc_records creditors self))
     \<subseteq> set (self_unmatched_docs self)"
  unfolding new_b_of_def using pass_b_sub by (intro matched_docs_sub) blast

lemma new_c_docs:
  "set (matched_docs_of (new_c_of parse bank_records doc_records creditors self))
     \<subseteq> set (self_unmatched_docs self)"
  unfolding new_c_of_def using pass_c_sub by (intro matched_docs_sub) blast

lemma cascade_closed_form:
  fixes parse bank_records doc_records creditors m
  defines "s0 \<equiv> load_state bank_records doc_records m"
  defines "na \<equiv> new_a_of bank_records doc_records s0"
  defines "s1 \<equiv> after_pass_a bank_records doc_records m"
  defines "nb \<equiv> new_b_of parse bank_records doc_records creditors s1"
  defines "s2 \<equiv> after_pass_b parse bank_records doc_records creditors m"
  defines "nc \<equiv> new_c_of parse bank_records doc_records creditors s2"
  shows "matchinfo s1 = m @ na"
    and "matchinfo s2 = m @ na @ nb"
    and "matchinfo (startup parse bank_records doc_records creditors m) = m @ na @ nb @ nc"
    and "set (self_unmatched_docs s1)
           = filename ` set doc_records - set (matched_docs_of (m @ na))"
    and "set (self_unmatched_docs s2)
           = filename ` set doc_records - set (matched_docs_of (m @ na @ nb))"
    and "set (self_unmatched_vouchers s1) \<subseteq> set (self_unmatched_vouchers s0)"
    and "set (self_unmatched_vouchers s2) \<subseteq> set (self_unmatched_vouchers s0)"
proof -
  have e1: "s1 = merge_pass s0 na"
    by (simp add: s1_def after_pass_a_def s0_def na_def Let_def)
  have e2: "s2 = merge_pass s1 nb"
    by (simp add: s2_def after_pass_b_def s1_def nb_def Let_def)
  have e3: "startup parse bank_records doc_records creditors m = merge_pass s2 nc"
    by (simp add: startup_def s2_def nc_def Let_def)
  have iv0: "set (self_unmatched_vouchers s0) \<inter> fst ` set (matchinfo s0) = {}"
    unfolding s0_def load_state_facts by blast
  have dv0: "distinct (self_unmatched_vouchers s0)" and dd0: "distinct (self_unmatched_docs s0)"
    unfolding s0_def by (rule load_state_facts)+
  have dna: "distinct (map fst na)" unfolding na_def new_a_of_def by (rule pass_a_distinct)
  have kna: "fst ` set na \<subseteq> set (self_unmatched_vouchers s0)"
    unfolding na_def by (rule new_a_keys)
  note a = merge_step [OF dv0 dd0 iv0 dna kna, folded e1]
  have dnb: "distinct (map fst nb)" unfolding nb_def new_b_of_def by (rule pass_b_distinct)
  have knb: "fst ` set nb \<subseteq> set (self_unmatched_vouchers s1)"
    unfolding nb_def by (rule new_b_keys)
  note b = merge_step [OF a(2) a(3) a(4) dnb knb, folded e2]
  have dnc: "distinct (map fst nc)" unfolding nc_def new_c_of_def by (rule pass_c_distinct)
  have knc: "fst ` set nc \<subseteq> set (self_unmatched_vouchers s2)"
    unfolding nc_def by (rule new_c_keys)
  note c = merge_step [OF b(2) b(3) b(4) dnc knc, folded e3]
  have m0: "matchinfo s0 = m" unfolding s0_def by (rule load_state_facts)
  show m1: "matchinfo s1 = m @ na" using a(1) m0 by simp
  show m2: "matchinfo s2 = m @ na @ nb" using b(1) m1 by simp
  show "matchinfo (startup parse bank_records doc_records creditors m) = m @ na @ nb @ nc"
    using c(1) m2 by simp
  have u0: "set (self_unmatched_docs s0) = filename ` set doc_records - set (matched_docs_of m)"
    unfolding s0_def by (rule load_state_facts)
  show u1: "set (self_unmatched_docs s1)
           = filename ` set doc_records - set (matched_docs_of (m @ na))"
    using a(6) u0 by (auto simp: matched_docs_of_append)
  show "set (self_unmatched_docs s2)
           = filename ` set doc_records - set (matched_docs_of (m @ na @ nb))"
    using b(6) u1 by (auto simp: matched_docs_of_append)
  show v1: "set (self_unmatched_vouchers s1) \<subseteq> set (self_unmatched_vouchers s0)"
    by (rule a(5))
  show "set (self_unmatched_vouchers s2) \<subseteq> set (self_unmatched_vouchers s0)"
    using b(5) v1 by blast
qed

text \<open>
  Claim C2, as the code has it. After Pass A the match set is the loaded one followed by
  the matches of Pass A, and after Pass B it is that followed by the matches of Pass B.
  Pass B and Pass C take their candidates from the unmatched pool as it stands when the
  pass starts, so no candidate of Pass B or Pass C, for any alias list, date and amount,
  and no document they emit, is in a match list of the match set as it stands then: that
  is, neither in the loaded match set nor claimed by an earlier pass of the run. Pass A is
  not part of the statement: its index is built over all document records.
\<close>

theorem later_passes_use_pool:
  "matchinfo (after_pass_a bank_records doc_records m)
     = m @ new_a_of bank_records doc_records (load_state bank_records doc_records m) \<and>
   matchinfo (after_pass_b parse bank_records doc_records creditors m)
     = matchinfo (after_pass_a bank_records doc_records m)
       @ new_b_of parse bank_records doc_records creditors
           (after_pass_a bank_records doc_records m) \<and>
   set (pass_b_candidates parse doc_records
          (self_unmatched_docs (after_pass_a bank_records doc_records m)) alias_list v_date)
     \<inter> set (matched_docs_of (matchinfo (after_pass_a bank_records doc_records m))) = {} \<and>
   set (matched_docs_of (new_b_of parse bank_records doc_records creditors
                           (after_pass_a bank_records doc_records m)))
     \<inter> set (matched_docs_of (matchinfo (after_pass_a bank_records doc_records m))) = {} \<and>
   set (pass_c_candidates parse doc_records
          (self_unmatched_docs (after_pass_b parse bank_records doc_records creditors m))
          subs v_date' v_amount)
     \<inter> set (matched_docs_of
              (matchinfo (after_pass_b parse bank_records doc_records creditors m))) = {} \<and>
   set (matched_docs_of (new_c_of parse bank_records doc_records creditors
                           (after_pass_b parse bank_records doc_records creditors m)))
     \<inter> set (matched_docs_of
              (matchinfo (after_pass_b parse bank_records doc_records creditors m))) = {}"
proof -
  note cf1 = cascade_closed_form(1) [of bank_records doc_records m]
  note cf2 = cascade_closed_form(2) [of parse bank_records doc_records creditors m]
  note cf4 = cascade_closed_form(4) [of bank_records doc_records m]
  note cf5 = cascade_closed_form(5) [of parse bank_records doc_records creditors m]
  let ?s1 = "after_pass_a bank_records doc_records m"
  let ?s2 = "after_pass_b parse bank_records doc_records creditors m"
  have p1: "set (self_unmatched_docs ?s1) \<inter> set (matched_docs_of (matchinfo ?s1)) = {}"
    using cf1 cf4 by auto
  have p2: "set (self_unmatched_docs ?s2) \<inter> set (matched_docs_of (matchinfo ?s2)) = {}"
    using cf2 cf5 by auto
  have b1: "set (pass_b_candidates parse doc_records (self_unmatched_docs ?s1) alias_list v_date)
      \<subseteq> set (self_unmatched_docs ?s1)"
    by (auto simp: pass_b_candidates_def pass_b_candidate_def)
  have c1: "set (pass_c_candidates parse doc_records (self_unmatched_docs ?s2) subs v_date'
      v_amount) \<subseteq> set (self_unmatched_docs ?s2)"
    by (rule set_pass_c_candidates_sub)
  have 1: "matchinfo ?s1 = m @ new_a_of bank_records doc_records
      (load_state bank_records doc_records m)" by (rule cf1)
  have 2: "matchinfo ?s2 = matchinfo ?s1 @ new_b_of parse bank_records doc_records creditors ?s1"
    using cf1 cf2 by simp
  have 3: "set (pass_b_candidates parse doc_records (self_unmatched_docs ?s1) alias_list v_date)
     \<inter> set (matched_docs_of (matchinfo ?s1)) = {}"
    using b1 p1 by blast
  have 4: "set (matched_docs_of (new_b_of parse bank_records doc_records creditors ?s1))
     \<inter> set (matched_docs_of (matchinfo ?s1)) = {}"
    using new_b_docs [of parse bank_records doc_records creditors ?s1] p1 by blast
  have 5: "set (pass_c_candidates parse doc_records (self_unmatched_docs ?s2) subs v_date'
      v_amount) \<inter> set (matched_docs_of (matchinfo ?s2)) = {}"
    using c1 p2 by blast
  have 6: "set (matched_docs_of (new_c_of parse bank_records doc_records creditors ?s2))
     \<inter> set (matched_docs_of (matchinfo ?s2)) = {}"
    using new_c_docs [of parse bank_records doc_records creditors ?s2] p2 by blast
  from 1 2 3 4 5 6 show ?thesis by (intro conjI)
qed

text \<open>
  Claim C3, as the code has it. A second run of the cascade against the match set of the
  first run keeps every entry of the first run, unchanged and in place, and its Pass A
  emits nothing; what the second run adds, if anything, comes from Pass B or Pass C.
\<close>

theorem rerun_extends:
  "(\<exists>extra. matchinfo (startup parse bank_records doc_records creditors
                (matchinfo (startup parse bank_records doc_records creditors m)))
            = matchinfo (startup parse bank_records doc_records creditors m) @ extra) \<and>
   new_a_of bank_records doc_records
     (load_state bank_records doc_records
        (matchinfo (startup parse bank_records doc_records creditors m))) = []"
proof -
  let ?M1 = "matchinfo (startup parse bank_records doc_records creditors m)"
  let ?s0 = "load_state bank_records doc_records m"
  let ?s0' = "load_state bank_records doc_records ?M1"
  let ?idx = "build_doc_by_amount doc_records"
  let ?na = "new_a_of bank_records doc_records ?s0"
  note cf3 = cascade_closed_form(3) [of parse bank_records doc_records creditors m]
  note cf3' = cascade_closed_form(3) [of parse bank_records doc_records creditors ?M1]
  have ext: "\<exists>extra. matchinfo (startup parse bank_records doc_records creditors ?M1)
      = ?M1 @ extra"
    using cf3' by blast
  have keys_na: "fst ` set ?na = VoucherNumber `
      {v \<in> set bank_records. pass_a_emit ?idx (self_unmatched_vouchers ?s0) v \<noteq> None}"
    unfolding new_a_of_def pass_a_exact_amount_def
    using foldl_emit_keys [of "pass_a_step ?idx (self_unmatched_vouchers ?s0)" VoucherNumber
        "pass_a_emit ?idx (self_unmatched_vouchers ?s0)" "[]" bank_records, OF pass_a_step_emit]
    by simp
  have none: "\<forall>v\<in>set bank_records. pass_a_emit ?idx (self_unmatched_vouchers ?s0') v = None"
  proof
    fix v assume v: "v \<in> set bank_records"
    show "pass_a_emit ?idx (self_unmatched_vouchers ?s0') v = None"
    proof (rule ccontr)
      assume "pass_a_emit ?idx (self_unmatched_vouchers ?s0') v \<noteq> None"
      then have in': "VoucherNumber v \<in> set (self_unmatched_vouchers ?s0')"
        and one: "length (get_list ?idx (round2 (Amount v))) = 1"
        by (auto simp: pass_a_emit_def split: if_splits)
      from in' have nk: "VoucherNumber v \<notin> fst ` set ?M1"
        unfolding load_state_facts by blast
      then have "VoucherNumber v \<notin> fst ` set m" unfolding cf3 by auto
      then have "VoucherNumber v \<in> set (self_unmatched_vouchers ?s0)"
        unfolding load_state_facts using v by blast
      then have "pass_a_emit ?idx (self_unmatched_vouchers ?s0) v \<noteq> None"
        using one by (simp add: pass_a_emit_def)
      then have "VoucherNumber v \<in> fst ` set ?na" unfolding keys_na using v by blast
      then have "VoucherNumber v \<in> fst ` set ?M1" unfolding cf3 by auto
      with nk show False by contradiction
    qed
  qed
  have "new_a_of bank_records doc_records ?s0' = []"
    unfolding new_a_of_def pass_a_exact_amount_def
    by (rule foldl_emit_none [OF pass_a_step_emit none])
  with ext show ?thesis by (intro conjI)
qed

lemma ex_pool_state:
  "load_state [ex_v4, ex_v5] [ex_d3] [(''1004'', [''c.pdf''])]
     = \<lparr> matchinfo = [(''1004'', [''c.pdf''])], self_unmatched_vouchers = [''1005''],
         self_unmatched_docs = [] \<rparr>"
  by (simp add: load_state_def matched_docs_of_def ex_v4_def ex_v5_def ex_d3_def)

text \<open>
  Claim C2, as the specification words it, fails for Pass A: the loaded match set already
  gives \<^verbatim>\<open>c.pdf\<close> to voucher 1004, the unmatched pool is empty, and Pass A still emits
  \<^verbatim>\<open>c.pdf\<close> for voucher 1005, so the document ends in two match lists.
\<close>

theorem pass_a_ignores_pool_counterexample:
  "self_unmatched_docs (load_state [ex_v4, ex_v5] [ex_d3] [(''1004'', [''c.pdf''])]) = [] \<and>
   new_a_of [ex_v4, ex_v5] [ex_d3] (load_state [ex_v4, ex_v5] [ex_d3] [(''1004'', [''c.pdf''])])
     = [(''1005'', [''c.pdf''])] \<and>
   matchinfo (after_pass_a [ex_v4, ex_v5] [ex_d3] [(''1004'', [''c.pdf''])])
     = [(''1004'', [''c.pdf'']), (''1005'', [''c.pdf''])]"
proof -
  have g: "get_list (build_doc_by_amount [ex_d3]) 9900 = [''c.pdf'']"
    by (simp add: get_list_build ex_d3_def ex_round2)
  have e4: "pass_a_emit (build_doc_by_amount [ex_d3]) [''1005''] ex_v4 = None"
    by (simp add: pass_a_emit_def ex_v4_def)
  have e5: "pass_a_emit (build_doc_by_amount [ex_d3]) [''1005''] ex_v5 = Some [''c.pdf'']"
    using g by (simp add: pass_a_emit_def ex_v5_def ex_round2)
  have na: "new_a_of [ex_v4, ex_v5] [ex_d3]
      (load_state [ex_v4, ex_v5] [ex_d3] [(''1004'', [''c.pdf''])]) = [(''1005'', [''c.pdf''])]"
    unfolding ex_pool_state new_a_of_def pass_a_exact_amount_def
    by (simp add: pass_a_step_emit e4 e5) (simp add: ex_v5_def)
  have "matchinfo (after_pass_a [ex_v4, ex_v5] [ex_d3] [(''1004'', [''c.pdf''])])
     = [(''1004'', [''c.pdf'']), (''1005'', [''c.pdf''])]"
    unfolding cascade_closed_form(1) na by simp
  then show ?thesis using na by (simp add: ex_pool_state)
qed

lemma ex2_lookup:
  "lookup_creditor ex_creditors2 ex_w1 = Some ex_acme"
  "lookup_creditor ex_creditors2 ex_w2 = Some ex_both"
  by (simp_all add: lookup_creditor_def ex_w1_def ex_w2_def ex_creditors2_def)

lemma ex2_candidates:
  "pass_b_candidates iso_ymd [ex_e1, ex_e2] ud (alias_pairs ex_acme) 738955
     = (if ''e1.pdf'' \<in> set ud then [''e1.pdf''] else [])"
  "pass_b_candidates iso_ymd [ex_e1, ex_e2] ud (alias_pairs ex_both) 738955
     = (if ''e1.pdf'' \<in> set ud then [''e1.pdf''] else [])
       @ (if ''e2.pdf'' \<in> set ud then [''e2.pdf''] else [])"
  by (simp_all add: pass_b_candidates_def pass_b_candidate_def alias_pairs_def ex_acme_def
      ex_both_def ex_e1_def ex_e2_def alias_hit_def startswith_def date_window_ok_def
      parse_dates_def List.map_filter_def)

lemma ex2_pass_a:
  "pass_a_exact_amount [ex_w1, ex_w2] [ex_e1, ex_e2] uv ud = []"
proof -
  have "\<And>k. get_list (build_doc_by_amount [ex_e1, ex_e2]) k = []"
    by (simp add: get_list_build ex_e1_def ex_e2_def)
  then have "\<And>v. pass_a_emit (build_doc_by_amount [ex_e1, ex_e2]) uv v = None"
    by (simp add: pass_a_emit_def)
  then show ?thesis by (simp add: pass_a_exact_amount_def pass_a_step_emit)
qed

lemma ex2_pass_c:
  "pass_c_subscription iso_ymd [ex_w1, ex_w2] [ex_e1, ex_e2] uv ud ex_creditors2 = []"
proof -
  have s: "subscription_aliases ex_acme = []" "subscription_aliases ex_both = []"
    by (simp_all add: subscription_aliases_def ex_acme_def ex_both_def truthy_def)
  have "pass_c_emit iso_ymd [ex_e1, ex_e2] uv ud ex_creditors2 ex_w1 = None"
    "pass_c_emit iso_ymd [ex_e1, ex_e2] uv ud ex_creditors2 ex_w2 = None"
    by (simp_all add: pass_c_emit_def ex2_lookup s)
  then show ?thesis by (simp add: pass_c_subscription_def pass_c_step_emit)
qed

lemma ex2_pass_b_first:
  "pass_b_alias_date iso_ymd [ex_w1, ex_w2] [ex_e1, ex_e2] [''2001'', ''2002'']
     [''e1.pdf'', ''e2.pdf''] ex_creditors2 = [(''2001'', [''e1.pdf''])]"
proof -
  have d: "Date_iso ex_w1 = ''2024-03-10''" "Date_iso ex_w2 = ''2024-03-10''"
    "VoucherNumber ex_w1 = ''2001''" "VoucherNumber ex_w2 = ''2002''"
    by (simp_all add: ex_w1_def ex_w2_def)
  have "pass_b_emit iso_ymd [ex_e1, ex_e2] [''2001'', ''2002''] [''e1.pdf'', ''e2.pdf'']
      ex_creditors2 ex_w1 = Some [''e1.pdf'']"
    "pass_b_emit iso_ymd [ex_e1, ex_e2] [''2001'', ''2002''] [''e1.pdf'', ''e2.pdf'']
      ex_creditors2 ex_w2 = None"
    unfolding pass_b_emit_def ex2_lookup d by (simp_all add: ex_dates ex2_candidates)
  then show ?thesis by (simp add: pass_b_alias_date_def pass_b_step_emit d)
qed

lemma ex2_pass_b_second:
  "pass_b_alias_date iso_ymd [ex_w1, ex_w2] [ex_e1, ex_e2] [''2002'']
     [''e2.pdf''] ex_creditors2 = [(''2002'', [''e2.pdf''])]"
proof -
  have d: "Date_iso ex_w1 = ''2024-03-10''" "Date_iso ex_w2 = ''2024-03-10''"
    "VoucherNumber ex_w1 = ''2001''" "VoucherNumber ex_w2 = ''2002''"
    by (simp_all add: ex_w1_def ex_w2_def)
  have "pass_b_emit iso_ymd [ex_e1, ex_e2] [''2002''] [''e2.pdf'']
      ex_creditors2 ex_w1 = None"
    "pass_b_emit iso_ymd [ex_e1, ex_e2] [''2002''] [''e2.pdf'']
      ex_creditors2 ex_w2 = Some [''e2.pdf'']"
    unfolding pass_b_emit_def ex2_lookup d by (simp_all add: ex_dates ex2_candidates)
  then show ?thesis by (simp add: pass_b_alias_date_def pass_b_step_emit d)
qed

lemma ex2_first_run:
  "matchinfo (startup iso_ymd [ex_w1, ex_w2] [ex_e1, ex_e2] ex_creditors2 [])
     = [(''2001'', [''e1.pdf''])]"
proof -
  have s0: "load_state [ex_w1, ex_w2] [ex_e1, ex_e2] []
      = \<lparr> matchinfo = [], self_unmatched_vouchers = [''2001'', ''2002''],
          self_unmatched_docs = [''e1.pdf'', ''e2.pdf''] \<rparr>"
    by (simp add: load_state_def matched_docs_of_def ex_w1_def ex_w2_def ex_e1_def ex_e2_def)
  have s1: "after_pass_a [ex_w1, ex_w2] [ex_e1, ex_e2] [] =
      \<lparr> matchinfo = [], self_unmatched_vouchers = [''2001'', ''2002''],
          self_unmatched_docs = [''e1.pdf'', ''e2.pdf''] \<rparr>"
    by (simp add: after_pass_a_def s0 new_a_of_def ex2_pass_a merge_pass_def)
  have s2: "after_pass_b iso_ymd [ex_w1, ex_w2] [ex_e1, ex_e2] ex_creditors2 [] =
      \<lparr> matchinfo = [(''2001'', [''e1.pdf''])], self_unmatched_vouchers = [''2002''],
          self_unmatched_docs = [''e2.pdf''] \<rparr>"
    by (simp add: after_pass_b_def s1 new_b_of_def ex2_pass_b_first merge_pass_def
        commit_match_def)
  show ?thesis
    by (simp add: startup_def s2 new_c_of_def ex2_pass_c merge_pass_def)
qed

lemma ex2_second_run:
  "matchinfo (startup iso_ymd [ex_w1, ex_w2] [ex_e1, ex_e2] ex_creditors2
                [(''2001'', [''e1.pdf''])])
     = [(''2001'', [''e1.pdf'']), (''2002'', [''e2.pdf''])]"
proof -
  have s0: "load_state [ex_w1, ex_w2] [ex_e1, ex_e2] [(''2001'', [''e1.pdf''])]
      = \<lparr> matchinfo = [(''2001'', [''e1.pdf''])], self_unmatched_vouchers = [''2002''],
          self_unmatched_docs = [''e2.pdf''] \<rparr>"
    by (simp add: load_state_def matched_docs_of_def ex_w1_def ex_w2_def ex_e1_def ex_e2_def)
  have s1: "after_pass_a [ex_w1, ex_w2] [ex_e1, ex_e2] [(''2001'', [''e1.pdf''])] =
      \<lparr> matchinfo = [(''2001'', [''e1.pdf''])], self_unmatched_vouchers = [''2002''],
          self_unmatched_docs = [''e2.pdf''] \<rparr>"
    by (simp add: after_pass_a_def s0 new_a_of_def ex2_pass_a merge_pass_def)
  have s2: "after_pass_b iso_ymd [ex_w1, ex_w2] [ex_e1, ex_e2] ex_creditors2
      [(''2001'', [''e1.pdf''])] =
      \<lparr> matchinfo = [(''2001'', [''e1.pdf'']), (''2002'', [''e2.pdf''])],
          self_unmatched_vouchers = [], self_unmatched_docs = [] \<rparr>"
    by (simp add: after_pass_b_def s1 new_b_of_def ex2_pass_b_second merge_pass_def
        commit_match_def)
  show ?thesis
    by (simp add: startup_def s2 new_c_of_def ex2_pass_c merge_pass_def)
qed

text \<open>
  Claim C3, as the specification words it, fails: in the first run voucher 2002 has two
  Pass B candidates and stays unmatched, while voucher 2001 takes \<^verbatim>\<open>e1.pdf\<close>; in the second
  run \<^verbatim>\<open>e1.pdf\<close> has left the pool, voucher 2002 has one candidate, and Pass B commits
  it.
\<close>

theorem rerun_adds_match_counterexample:
  "matchinfo (startup iso_ymd [ex_w1, ex_w2] [ex_e1, ex_e2] ex_creditors2 [])
     = [(''2001'', [''e1.pdf''])] \<and>
   matchinfo (startup iso_ymd [ex_w1, ex_w2] [ex_e1, ex_e2] ex_creditors2
                (matchinfo (startup iso_ymd [ex_w1, ex_w2] [ex_e1, ex_e2] ex_creditors2 [])))
     = [(''2001'', [''e1.pdf'']), (''2002'', [''e2.pdf''])]"
  by (simp add: ex2_first_run ex2_second_run)

theorem rerun_extends_witness:
  "matchinfo (startup iso_ymd [ex_w1, ex_w2] [ex_e1, ex_e2] ex_creditors2
                (matchinfo (startup iso_ymd [ex_w1, ex_w2] [ex_e1, ex_e2] ex_creditors2 [])))
     = matchinfo (startup iso_ymd [ex_w1, ex_w2] [ex_e1, ex_e2] ex_creditors2 [])
       @ [(''2002'', [''e2.pdf''])] \<and>
   new_a_of [ex_w1, ex_w2] [ex_e1, ex_e2]
     (load_state [ex_w1, ex_w2] [ex_e1, ex_e2]
        (matchinfo (startup iso_ymd [ex_w1, ex_w2] [ex_e1, ex_e2] ex_creditors2 []))) = []"
proof -
  note t = rerun_extends [of iso_ymd "[ex_w1, ex_w2]" "[ex_e1, ex_e2]" ex_creditors2 "[]"]
  have a: "new_a_of [ex_w1, ex_w2] [ex_e1, ex_e2]
     (load_state [ex_w1, ex_w2] [ex_e1, ex_e2]
        (matchinfo (startup iso_ymd [ex_w1, ex_w2] [ex_e1, ex_e2] ex_creditors2 []))) = []"
    using t by blast
  then show ?thesis by (simp add: ex2_first_run ex2_second_run)
qed

end
